theory Spec2Isabelle
  imports Complex_Main "HOL-Library.Sublist"
begin

section \<open>Python strings and exceptions\<close>

text \<open>
  A Python \<open>str\<close> is modelled as a \<open>string\<close>: a list of code points below 256.
  On that range \<open>\d\<close> is the ten ASCII digits and the whitespace of \<open>str.strip\<close>
  and \<open>\s\<close> is the twelve characters listed in \<open>py_space_codes\<close>.
  An exception of class \<open>Exception\<close> is modelled by its message \<open>str(e)\<close>; a call
  that may raise one returns \<open>exn + 'a\<close>, with \<open>Inl\<close> for the raise. What can be raised
  at an \<open>await\<close> of \<open>scrape\<close> is either such an exception or a signal: an exception
  outside class \<open>Exception\<close> (\<open>asyncio.CancelledError\<close>, \<open>KeyboardInterrupt\<close>,
  \<open>SystemExit\<close>), given by its name. No handler of the source catches a signal.
\<close>

type_synonym exn = string

datatype raised = Exception exn | Signal string

definition bind_res :: "'e + 'a \<Rightarrow> ('a \<Rightarrow> 'e + 'b) \<Rightarrow> 'e + 'b" where
  "bind_res m f = (case m of Inl e \<Rightarrow> Inl e | Inr x \<Rightarrow> f x)"


definition py_space_codes :: "nat list" where
  "py_space_codes = [9, 10, 11, 12, 13, 28, 29, 30, 31, 32, 133, 160]"

definition py_isspace :: "char \<Rightarrow> bool" where
  "py_isspace c = ((of_char c :: nat) \<in> set py_space_codes)"

definition py_strip :: "string \<Rightarrow> string" where
  "py_strip s = rev (dropWhile py_isspace (rev (dropWhile py_isspace s)))"

definition is_digit :: "char \<Rightarrow> bool" where
  "is_digit c = (c \<in> set ''0123456789'')"

definition is_alnum_ascii :: "char \<Rightarrow> bool" where
  "is_alnum_ascii c =
     (c \<in> set ''abcdefghijklmnopqrstuvwxyzABCDEFGHIJKLMNOPQRSTUVWXYZ0123456789'')"

text \<open>\<open>sub in s\<close> on strings: \<open>sub\<close> occurs in \<open>s\<close> as a contiguous piece.\<close>

fun py_in :: "string \<Rightarrow> string \<Rightarrow> bool" where
  "py_in sub [] = (sub = [])"
| "py_in sub (c # cs) = (prefix sub (c # cs) \<or> py_in sub cs)"

section \<open>Insertion-ordered dictionaries\<close>

text \<open>
  A Python \<open>dict\<close> keeps its keys in insertion order, and storing under a key that is
  present keeps the key's place. It is modelled by an association list with distinct keys.
\<close>

type_synonym ('k, 'v) pydict = "('k \<times> 'v) list"

definition dict_keys :: "('k, 'v) pydict \<Rightarrow> 'k list" where
  "dict_keys d = map fst d"

fun dict_set :: "('k, 'v) pydict \<Rightarrow> 'k \<Rightarrow> 'v \<Rightarrow> ('k, 'v) pydict" where
  "dict_set [] k v = [(k, v)]"
| "dict_set ((k', v') # d) k v =
     (if k' = k then (k', v) # d else (k', v') # dict_set d k v)"

text \<open>\<open>dict.fromkeys(xs)\<close>: every element stored in turn under the value \<open>None\<close>.\<close>

definition dict_fromkeys :: "'k list \<Rightarrow> ('k, unit option) pydict" where
  "dict_fromkeys xs = foldl (\<lambda>d k. dict_set d k None) [] xs"

section \<open>The page, as the extractors observe it\<close>

text \<open>
  A loaded page is modelled by what its queries return. \<open>query_texts sel\<close> is the outcome of
  \<open>page.query_selector_all(sel)\<close>: an exception, or the matched elements in document order,
  each given by the outcome of its \<open>inner_text()\<close>. \<open>gallery\<close> is the outcome of
  \<open>page.query_selector("#picGalleryEle")\<close>: an exception, no element, or the outcome of the
  element's \<open>query_selector_all("img[class*='thumbnailPic']")\<close>, each image given by the
  outcome of \<open>get_attribute("src")\<close>. The remaining fields are the values the title,
  price, shop-name and generic text extractors compute on the page.
\<close>

record page =
  page_content :: "exn + string"
  query_texts :: "string \<Rightarrow> exn + (exn + string) list"
  gallery :: "exn + (exn + (exn + string option) list) option"
  title_result :: "exn + string"
  price_result :: "string option"
  shop_name_result :: "string option"
  text_result :: "string \<Rightarrow> string option"

section \<open>Highlights, services and promotions\<close>

text \<open>
  The body of \<open>for el in elements[:n]\<close> inside the \<open>try\<close>: an \<open>inner_text()\<close> that raises
  leaves the loop, keeping what was appended before.
\<close>

fun collect_texts :: "nat \<Rightarrow> nat \<Rightarrow> (exn + string) list \<Rightarrow> string list \<Rightarrow> string list" where
  "collect_texts lo hi [] acc = acc"
| "collect_texts lo hi (Inl e # els) acc = acc"
| "collect_texts lo hi (Inr text # els) acc =
     (if text \<noteq> [] \<and> length (py_strip text) > lo \<and> length (py_strip text) < hi
      then collect_texts lo hi els (acc @ [py_strip text])
      else collect_texts lo hi els acc)"

text \<open>
  The loop \<open>for selector in selectors\<close>: \<open>slice\<close> is the slice bound on the elements, \<open>lo\<close>
  and \<open>hi\<close> the strict bounds on the stripped length. A \<open>query_selector_all\<close> that raises
  is swallowed and the next selector is tried.
\<close>

fun collect_selectors ::
  "page \<Rightarrow> nat \<Rightarrow> nat \<Rightarrow> nat \<Rightarrow> string list \<Rightarrow> string list \<Rightarrow> string list" where
  "collect_selectors pg slice lo hi [] acc = acc"
| "collect_selectors pg slice lo hi (sel # sels) acc =
     (case query_texts pg sel of
        Inl e \<Rightarrow> collect_selectors pg slice lo hi sels acc
      | Inr elements \<Rightarrow>
          collect_selectors pg slice lo hi sels (collect_texts lo hi (take slice elements) acc))"

text \<open>The selector \<open>[class*='name']\<close>.\<close>

definition class_has :: "string \<Rightarrow> string" where
  "class_has name = ''[class*='' @ [CHR 0x27] @ name @ [CHR 0x27] @ '']''"

definition highlight_selectors :: "string list" where
  "highlight_selectors =
     [class_has ''highlight'' @ '' span'',
      class_has ''Highlight'' @ '' span'',
      class_has ''sellPoint'',
      class_has ''feature'',
      class_has ''tag'',
      class_has ''label'']"

definition service_selectors :: "string list" where
  "service_selectors =
     [class_has ''service'' @ '' span'',
      class_has ''guarantee'',
      class_has ''policy'',
      class_has ''storeLabel'']"

definition promotion_selectors :: "string list" where
  "promotion_selectors =
     [class_has ''promotion'',
      class_has ''Promotion'',
      class_has ''discount'',
      class_has ''coupon'',
      class_has ''activity'']"

definition highlight_candidates :: "page \<Rightarrow> string list" where
  "highlight_candidates pg = collect_selectors pg 10 2 50 highlight_selectors []"

definition service_candidates :: "page \<Rightarrow> string list" where
  "service_candidates pg = collect_selectors pg 10 2 50 service_selectors []"

definition promotion_candidates :: "page \<Rightarrow> string list" where
  "promotion_candidates pg = collect_selectors pg 5 3 100 promotion_selectors []"

definition extract_highlights :: "page \<Rightarrow> string list" where
  "extract_highlights pg = take 8 (dict_keys (dict_fromkeys (highlight_candidates pg)))"

definition extract_services :: "page \<Rightarrow> string list" where
  "extract_services pg = take 6 (dict_keys (dict_fromkeys (service_candidates pg)))"

definition extract_promotions :: "page \<Rightarrow> string list" where
  "extract_promotions pg = take 5 (dict_keys (dict_fromkeys (promotion_candidates pg)))"

section \<open>Seller identity\<close>

text \<open>
  One match attempt of \<open>_!!(\d{10,13})\<close> at the start of \<open>s\<close>: the captured digits (at
  most 13, greedily) and the text after the match.
\<close>

definition match_seller_token :: "string \<Rightarrow> (string \<times> string) option" where
  "match_seller_token s =
     (if prefix ''_!!'' s then
        (let ds = take 13 (takeWhile is_digit (drop 3 s)) in
         if length ds \<ge> 10 then Some (ds, drop (3 + length ds) s) else None)
      else None)"

text \<open>
  \<open>re.findall(r'_!!(\d{10,13})', content)\<close>: the captures of the successive matches, left to
  right; the scan resumes after a match, and one character further where none starts.
\<close>

function findall_seller_tokens :: "string \<Rightarrow> string list" where
  "findall_seller_tokens [] = []"
| "findall_seller_tokens (c # cs) =
     (case match_seller_token (c # cs) of
        Some (ds, rest) \<Rightarrow> ds # findall_seller_tokens rest
      | None \<Rightarrow> findall_seller_tokens cs)"
  by pat_completeness auto
termination
  by (relation "measure length") (auto simp: match_seller_token_def Let_def split: if_splits)

text \<open>\<open>Counter(xs)\<close>: a dictionary of counts, a new key appended with count 1.\<close>

fun counter_add :: "('k, nat) pydict \<Rightarrow> 'k \<Rightarrow> ('k, nat) pydict" where
  "counter_add [] k = [(k, 1)]"
| "counter_add ((k', n) # d) k =
     (if k' = k then (k', n + 1) # d else (k', n) # counter_add d k)"

definition Counter :: "'k list \<Rightarrow> ('k, nat) pydict" where
  "Counter xs = foldl counter_add [] xs"

text \<open>
  \<open>most_common(1)\<close> is \<open>heapq.nlargest(1, items, key = count)\<close>, which is \<open>max\<close> over the
  items in dictionary order: the first item of the largest count.
\<close>

fun max_by_count :: "('k \<times> nat) \<Rightarrow> ('k \<times> nat) list \<Rightarrow> ('k \<times> nat)" where
  "max_by_count best [] = best"
| "max_by_count best (kv # kvs) =
     (if snd kv > snd best then max_by_count kv kvs else max_by_count best kvs)"

definition most_common_1 :: "('k, nat) pydict \<Rightarrow> ('k \<times> nat) list" where
  "most_common_1 d = (case d of [] \<Rightarrow> [] | kv # kvs \<Rightarrow> [max_by_count kv kvs])"

text \<open>
  The fallback pattern \<open>seller[Ii]d["\s:=]+["\']?(\d{10,13})\<close>, attempted at the start of
  \<open>s\<close>. The separator run is taken whole: a shorter run is followed by a separator, which
  the optional quote can take only when it is the run's last character, and then the
  match is the same.
\<close>

definition is_field_sep :: "char \<Rightarrow> bool" where
  "is_field_sep c = (c = CHR 0x22 \<or> py_isspace c \<or> c = CHR '':'' \<or> c = CHR ''='')"

definition match_seller_field :: "string \<Rightarrow> string option" where
  "match_seller_field s =
     (if prefix ''sellerId'' s \<or> prefix ''sellerid'' s then
        (let r = drop 8 s;
             seps = takeWhile is_field_sep r;
             r1 = dropWhile is_field_sep r;
             r2 = (case r1 of [] \<Rightarrow> r1
                   | c # cs \<Rightarrow> if c = CHR 0x22 \<or> c = CHR 0x27 then cs else r1);
             ds = take 13 (takeWhile is_digit r2)
         in if seps \<noteq> [] \<and> length ds \<ge> 10 then Some ds else None)
      else None)"

fun search_seller_field :: "string \<Rightarrow> string option" where
  "search_seller_field [] = None"
| "search_seller_field (c # cs) =
     (case match_seller_field (c # cs) of
        Some ds \<Rightarrow> Some ds
      | None \<Rightarrow> search_seller_field cs)"

definition real_ids :: "string \<Rightarrow> string list" where
  "real_ids content = filter (\<lambda>i. \<not> prefix ''6000000'' i) (findall_seller_tokens content)"

text \<open>
  \<open>_extract_seller_id\<close>. The whole body is inside \<open>try\<close>: a \<open>page.content()\<close> that raises
  gives \<open>None\<close>.
\<close>

definition extract_seller_id :: "page \<Rightarrow> string option" where
  "extract_seller_id pg =
     (case page_content pg of
        Inl e \<Rightarrow> None
      | Inr content \<Rightarrow>
          (case (if real_ids content \<noteq> [] then most_common_1 (Counter (real_ids content)) else []) of
             (seller_id, n) # _ \<Rightarrow> Some seller_id
           | [] \<Rightarrow>
               (case search_seller_field content of
                  Some sid \<Rightarrow> if \<not> prefix ''6000000'' sid then Some sid else None
                | None \<Rightarrow> None)))"

section \<open>Image resolver\<close>

text \<open>One match attempt of \<open>(O1CN01[a-zA-Z0-9]+)\<close> at the start of \<open>s\<close>.\<close>

definition match_img_id :: "string \<Rightarrow> string option" where
  "match_img_id s =
     (if prefix ''O1CN01'' s \<and> takeWhile is_alnum_ascii (drop 6 s) \<noteq> []
      then Some (''O1CN01'' @ takeWhile is_alnum_ascii (drop 6 s))
      else None)"

text \<open>\<open>re.search\<close>: the leftmost position where the pattern matches.\<close>

fun search_img_id :: "string \<Rightarrow> string option" where
  "search_img_id [] = None"
| "search_img_id (c # cs) =
     (case match_img_id (c # cs) of
        Some m \<Rightarrow> Some m
      | None \<Rightarrow> search_img_id cs)"

text \<open>
  \<open>$\<close> matches at the end of the string and before a newline that ends the string.
\<close>

definition at_dollar :: "string \<Rightarrow> bool" where
  "at_dollar s = (s = [] \<or> s = [CHR 0x0A])"

text \<open>
  One match attempt of each rewrite pattern at the start of \<open>s\<close>; the result is the text
  left after the match (empty, or the final newline).
  \<open>\.jpg_q\d+\.jpg_\.webp$\<close>:
\<close>

definition match_quality_webp :: "string \<Rightarrow> string option" where
  "match_quality_webp s =
     (if prefix ''.jpg_q'' s then
        (let ds = takeWhile is_digit (drop 6 s);
             r = dropWhile is_digit (drop 6 s)
         in if ds \<noteq> [] \<and> prefix ''.jpg_.webp'' r \<and> at_dollar (drop 10 r)
            then Some (drop 10 r) else None)
      else None)"

text \<open>\<open>\.jpg_q\d+\.jpg$\<close>:\<close>

definition match_quality_jpg :: "string \<Rightarrow> string option" where
  "match_quality_jpg s =
     (if prefix ''.jpg_q'' s then
        (let ds = takeWhile is_digit (drop 6 s);
             r = dropWhile is_digit (drop 6 s)
         in if ds \<noteq> [] \<and> prefix ''.jpg'' r \<and> at_dollar (drop 4 r)
            then Some (drop 4 r) else None)
      else None)"

text \<open>
  \<open>\.jpg_\d+x\d+[^.]*\.jpg_\.webp$\<close>: the run \<open>[^.]*\<close> has to stop at a dot, so it is the
  whole run of characters other than a dot.
\<close>

definition match_size_webp :: "string \<Rightarrow> string option" where
  "match_size_webp s =
     (if prefix ''.jpg_'' s then
        (let w = takeWhile is_digit (drop 5 s);
             r1 = dropWhile is_digit (drop 5 s)
         in if w \<noteq> [] \<and> prefix ''x'' r1 then
              (let h = takeWhile is_digit (drop 1 r1);
                   r2 = dropWhile (\<lambda>c. c \<noteq> CHR ''.'') (dropWhile is_digit (drop 1 r1))
               in if h \<noteq> [] \<and> prefix ''.jpg_.webp'' r2 \<and> at_dollar (drop 10 r2)
                  then Some (drop 10 r2) else None)
            else None)
      else None)"

text \<open>
  \<open>re.sub(pattern, repl, s)\<close> for a pattern that ends in \<open>$\<close> and matches no empty text:
  the leftmost match is replaced, and nothing can match in what is left after it.
\<close>

fun re_sub :: "(string \<Rightarrow> string option) \<Rightarrow> string \<Rightarrow> string \<Rightarrow> string" where
  "re_sub m repl [] = []"
| "re_sub m repl (c # cs) =
     (case m (c # cs) of
        Some rest \<Rightarrow> repl @ rest
      | None \<Rightarrow> c # re_sub m repl cs)"

text \<open>The three rewrites of \<open>_extract_main_images\<close>, in the source's order.\<close>

definition high_res :: "string \<Rightarrow> string" where
  "high_res u =
     re_sub match_size_webp ''.jpg_.webp''
       (re_sub match_quality_jpg ''.jpg''
          (re_sub match_quality_webp ''.jpg_.webp'' u))"

text \<open>
  \<open>if seller_id and f"_!!{seller_id}" not in url: continue\<close>; an empty \<open>seller_id\<close> is
  falsy, as \<open>None\<close> is.
\<close>

definition seller_rejects :: "string option \<Rightarrow> string \<Rightarrow> bool" where
  "seller_rejects seller_id u =
     (case seller_id of
        None \<Rightarrow> False
      | Some sid \<Rightarrow> sid \<noteq> [] \<and> \<not> py_in (''_!!'' @ sid) u)"

text \<open>The loop over \<open>main_images\<close>, with \<open>seen_ids\<close> and \<open>cleaned_images\<close> as it goes.\<close>

fun clean_loop ::
  "string option \<Rightarrow> string list \<Rightarrow> string set \<Rightarrow> string list \<Rightarrow> string list" where
  "clean_loop seller_id [] seen_ids cleaned_images = cleaned_images"
| "clean_loop seller_id (u # us) seen_ids cleaned_images =
     (if seller_rejects seller_id u then clean_loop seller_id us seen_ids cleaned_images
      else
        (case search_img_id u of
           None \<Rightarrow> clean_loop seller_id us seen_ids cleaned_images
         | Some img_id \<Rightarrow>
             if img_id \<notin> seen_ids
             then clean_loop seller_id us (insert img_id seen_ids) (cleaned_images @ [high_res u])
             else clean_loop seller_id us seen_ids cleaned_images))"

definition resolve_images :: "string option \<Rightarrow> string list \<Rightarrow> string list" where
  "resolve_images seller_id main_images = clean_loop seller_id main_images {} []"

text \<open>
  The thumbnails' \<open>src\<close> attributes: an absent or empty one is skipped, a
  \<open>get_attribute\<close> that raises leaves \<open>_extract_main_images\<close>.
\<close>

fun gallery_srcs :: "(exn + string option) list \<Rightarrow> string list \<Rightarrow> exn + string list" where
  "gallery_srcs [] acc = Inr acc"
| "gallery_srcs (Inl e # imgs) acc = Inl e"
| "gallery_srcs (Inr None # imgs) acc = gallery_srcs imgs acc"
| "gallery_srcs (Inr (Some src) # imgs) acc =
     (if src \<noteq> [] then gallery_srcs imgs (acc @ [src]) else gallery_srcs imgs acc)"

definition collect_candidates :: "page \<Rightarrow> string list \<Rightarrow> exn + string list" where
  "collect_candidates pg api_images =
     bind_res
       (case gallery pg of
          Inl e \<Rightarrow> Inl e
        | Inr None \<Rightarrow> Inr []
        | Inr (Some (Inl e)) \<Rightarrow> Inl e
        | Inr (Some (Inr thumbnail_imgs)) \<Rightarrow> gallery_srcs thumbnail_imgs [])
       (\<lambda>main_images.
          Inr (if main_images = [] \<and> api_images \<noteq> [] then main_images @ api_images
               else main_images))"

text \<open>
  \<open>_extract_main_images\<close>. \<open>_trigger_thumbnail_loading\<close> swallows every exception and
  returns nothing; the page is observed after it.
\<close>

definition extract_main_images :: "page \<Rightarrow> string list \<Rightarrow> exn + string list" where
  "extract_main_images pg api_images =
     (let seller_id = extract_seller_id pg in
      bind_res (collect_candidates pg api_images)
        (\<lambda>main_images. Inr (resolve_images seller_id main_images)))"

section \<open>Image downloader\<close>

text \<open>
  A \<open>Path\<close> is modelled by its \<open>str()\<close> on a POSIX system. \<open>posix_path d\<close> is
  \<open>str(Path(d))\<close>: empty and \<open>.\<close> components are dropped, two leading slashes (not three)
  are kept, and the empty path is \<open>.\<close>. \<open>path_join p name\<close> is \<open>str(p / name)\<close> for a
  plain file name.
\<close>

fun split_on :: "char \<Rightarrow> string \<Rightarrow> string list" where
  "split_on sep [] = [[]]"
| "split_on sep (c # cs) =
     (if c = sep then [] # split_on sep cs
      else (case split_on sep cs of
              [] \<Rightarrow> [[c]]
            | piece # pieces \<Rightarrow> (c # piece) # pieces))"

fun join_with :: "string \<Rightarrow> string list \<Rightarrow> string" where
  "join_with sep [] = []"
| "join_with sep [x] = x"
| "join_with sep (x # y # ys) = x @ sep @ join_with sep (y # ys)"

definition posix_path :: "string \<Rightarrow> string" where
  "posix_path d =
     (let parts = filter (\<lambda>x. x \<noteq> [] \<and> x \<noteq> ''.'') (split_on CHR ''/'' d);
          root = (if prefix ''//'' d \<and> \<not> prefix ''///'' d then ''//''
                  else if prefix ''/'' d then ''/'' else [])
      in if root = [] \<and> parts = [] then ''.'' else root @ join_with ''/'' parts)"

definition path_join :: "string \<Rightarrow> string \<Rightarrow> string" where
  "path_join p name =
     (if p = ''.'' then name
      else if p = ''/'' \<or> p = ''//'' then p @ name
      else p @ ''/'' @ name)"

text \<open>
  What the downloader meets: \<open>goto_image i u\<close> is the outcome of the \<open>i\<close>-th
  \<open>page.goto(u)\<close>, an exception, no response, or a response with its status and the
  outcome of \<open>body()\<close>; \<open>write_file\<close> is the outcome of opening and writing a file;
  \<open>mkdir_images\<close> that of creating the images directory.
\<close>

datatype response = No_response | Response nat "exn + string"

record fetcher =
  goto_image :: "nat \<Rightarrow> string \<Rightarrow> exn + response"
  write_file :: "string \<Rightarrow> string \<Rightarrow> exn + unit"
  mkdir_images :: "string \<Rightarrow> exn + unit"

definition fix_protocol :: "string \<Rightarrow> string" where
  "fix_protocol u = (if prefix ''//'' u then ''https:'' @ u else u)"

definition image_ext :: "string \<Rightarrow> string" where
  "image_ext u = (if py_in ''.png'' u then ''.png'' else ''.jpg'')"

text \<open>\<open>f"{i:02d}"\<close>: the decimal digits of \<open>i\<close>, filled with zeros on the left to width 2.\<close>

fun decimal :: "nat \<Rightarrow> string" where
  "decimal n =
     (if n < 10 then [''0123456789'' ! n]
      else decimal (n div 10) @ [''0123456789'' ! (n mod 10)])"

declare decimal.simps [simp del]

definition fmt_02d :: "nat \<Rightarrow> string" where
  "fmt_02d i = replicate (2 - length (decimal i)) CHR ''0'' @ decimal i"

definition image_path :: "string \<Rightarrow> nat \<Rightarrow> string \<Rightarrow> string" where
  "image_path images_dir i u = path_join images_dir (''main_'' @ fmt_02d i @ image_ext u)"

text \<open>
  The loop \<open>for i, url in enumerate(product.main_images, 1)\<close>. Every failure inside the
  \<open>try\<close> goes on with the next URL and leaves \<open>local_images\<close> as it is.
\<close>

fun download_loop ::
  "fetcher \<Rightarrow> string \<Rightarrow> nat \<Rightarrow> string list \<Rightarrow> string list \<Rightarrow> string list" where
  "download_loop io images_dir i [] local = local"
| "download_loop io images_dir i (u0 # us) local =
     (let u = fix_protocol u0 in
      case goto_image io i u of
        Inl e \<Rightarrow> download_loop io images_dir (i + 1) us local
      | Inr No_response \<Rightarrow> download_loop io images_dir (i + 1) us local
      | Inr (Response status body) \<Rightarrow>
          if status = 200 then
            (case body of
               Inl e \<Rightarrow> download_loop io images_dir (i + 1) us local
             | Inr content \<Rightarrow>
                 (case write_file io (image_path images_dir i u) content of
                    Inl e \<Rightarrow> download_loop io images_dir (i + 1) us local
                  | Inr _ \<Rightarrow>
                      download_loop io images_dir (i + 1) us
                        (local @ [image_path images_dir i u])))
          else download_loop io images_dir (i + 1) us local)"

section \<open>Product identifier and platform\<close>

text \<open>
  \<open>urlparse\<close> and \<open>parse_qs\<close> are library functions. Their splitting is written out:
  \<open>urlsplit\<close> removes tabs, carriage returns and newlines, cuts the fragment at the first
  \<open>#\<close> and takes the query after the first \<open>?\<close> before it (the scheme and the network
  location hold neither character); \<open>parse_qsl\<close> splits at \<open>&\<close>, then at the first \<open>=\<close>,
  and drops a field that is empty, has no \<open>=\<close> or has an empty value. Two parts are
  parameters: \<open>url_error u\<close> is the message of the \<open>ValueError\<close> that \<open>urlsplit\<close> raises
  on the network location of \<open>u\<close>, \<open>None\<close> where it raises none, and \<open>unquote\<close> is the
  percent-decoding.
\<close>

record urllib =
  url_error :: "string \<Rightarrow> string option"
  unquote :: "string \<Rightarrow> string"

definition url_query :: "string \<Rightarrow> string" where
  "url_query u =
     (let cleaned = filter (\<lambda>c. c \<notin> set [CHR 0x09, CHR 0x0D, CHR 0x0A]) u;
          before_fragment = takeWhile (\<lambda>c. c \<noteq> CHR ''#'') cleaned
      in drop 1 (dropWhile (\<lambda>c. c \<noteq> CHR ''?'') before_fragment))"

definition plus_to_space :: "string \<Rightarrow> string" where
  "plus_to_space s = map (\<lambda>c. if c = CHR ''+'' then CHR '' '' else c) s"

definition parse_field :: "urllib \<Rightarrow> string \<Rightarrow> (string \<times> string) option" where
  "parse_field lib name_value =
     (if name_value = [] then None
      else if CHR ''='' \<notin> set name_value then None
      else
        (let n = takeWhile (\<lambda>c. c \<noteq> CHR ''='') name_value;
             v = drop 1 (dropWhile (\<lambda>c. c \<noteq> CHR ''='') name_value)
         in if v \<noteq> [] then Some (unquote lib (plus_to_space n), unquote lib (plus_to_space v))
            else None))"

definition parse_qsl :: "urllib \<Rightarrow> string \<Rightarrow> (string \<times> string) list" where
  "parse_qsl lib qs =
     (if qs = [] then [] else List.map_filter (parse_field lib) (split_on CHR ''&'' qs))"

definition qs_add ::
  "(string, string list) pydict \<Rightarrow> string \<times> string \<Rightarrow> (string, string list) pydict" where
  "qs_add parsed_result nv =
     (case map_of parsed_result (fst nv) of
        Some vs \<Rightarrow> dict_set parsed_result (fst nv) (vs @ [snd nv])
      | None \<Rightarrow> dict_set parsed_result (fst nv) [snd nv])"

definition parse_qs :: "urllib \<Rightarrow> string \<Rightarrow> (string, string list) pydict" where
  "parse_qs lib qs = foldl qs_add [] (parse_qsl lib qs)"

text \<open>
  \<open>_extract_product_id\<close>: \<open>params.get("id", [None])[0]\<close>; indexing an empty list
  raises \<open>IndexError\<close>.
\<close>

definition extract_product_id :: "urllib \<Rightarrow> string \<Rightarrow> exn + string option" where
  "extract_product_id lib u =
     (case url_error lib u of
        Some message \<Rightarrow> Inl message
      | None \<Rightarrow>
          (case map_of (parse_qs lib (url_query u)) ''id'' of
             None \<Rightarrow> Inr None
           | Some [] \<Rightarrow> Inl ''list index out of range''
           | Some (v # vs) \<Rightarrow> Inr (Some v)))"

definition detect_platform :: "string \<Rightarrow> string" where
  "detect_platform u = (if py_in ''tmall.com'' u then ''tmall'' else ''taobao'')"

section \<open>Data model\<close>

record ProductInfo =
  url :: string
  platform :: string
  product_id :: "string option"
  title :: string
  price :: "string option"
  original_price :: "string option"
  shop_name :: "string option"
  shop_url :: "string option"
  main_images :: "string list"
  detail_images :: "string list"
  local_images :: "string list"
  shipping :: "string option"
  freight :: "string option"
  sales :: "string option"
  rating :: "string option"
  review_count :: "string option"
  description :: "string option"
  highlights :: "string list"
  specifications :: "(string, string) pydict"
  services :: "string list"
  promotions :: "string list"
  sku_options :: "(string, string list) pydict"
  image_descriptions :: "string list"
  raw_html_path :: "string option"
  raw_json_path :: "string option"
  screenshot_path :: "string option"


text \<open>\<open>ProductInfo(url, platform, product_id, title="")\<close>, every other field at its default.\<close>

definition new_product :: "string \<Rightarrow> string \<Rightarrow> string option \<Rightarrow> ProductInfo" where
  "new_product u plat pid =
     \<lparr>url = u, platform = plat, product_id = pid, title = [], price = None,
      original_price = None, shop_name = None, shop_url = None, main_images = [],
      detail_images = [], local_images = [], shipping = None, freight = None, sales = None,
      rating = None, review_count = None, description = None, highlights = [],
      specifications = [], services = [], promotions = [], sku_options = [],
      image_descriptions = [], raw_html_path = None, raw_json_path = None,
      screenshot_path = None\<rparr>"

text \<open>\<open>_extract_product_info\<close>, field by field in the source's order.\<close>

definition extract_product_info ::
  "urllib \<Rightarrow> page \<Rightarrow> string \<Rightarrow> string list \<Rightarrow> exn + ProductInfo" where
  "extract_product_info lib pg u api_images =
     bind_res (extract_product_id lib u) (\<lambda>pid.
     bind_res (title_result pg) (\<lambda>t.
     bind_res (extract_main_images pg api_images) (\<lambda>imgs.
       Inr ((new_product u (detect_platform u) pid)
         \<lparr>title := t,
          price := price_result pg,
          original_price :=
            text_result pg (class_has ''originPrice'' @ '', '' @ class_has ''originalPrice''),
          shop_name := shop_name_result pg,
          shipping := text_result pg (class_has ''shipping''),
          freight := text_result pg (class_has ''freight''),
          sales := text_result pg (class_has ''sales'' @ '', '' @ class_has ''sold''),
          rating := text_result pg (class_has ''rating'' @ '', '' @ class_has ''starNum''),
          description :=
            text_result pg
              (class_has ''subTitle'' @ '', '' @ class_has ''subtitle'' @ '', ''
                 @ class_has ''desc''),
          highlights := extract_highlights pg,
          services := extract_services pg,
          promotions := extract_promotions pg,
          main_images := imgs\<rparr>))))"

text \<open>\<open>_download_images\<close>: the directory is created outside the per-URL \<open>try\<close>.\<close>

definition download_images :: "fetcher \<Rightarrow> ProductInfo \<Rightarrow> string \<Rightarrow> exn + ProductInfo" where
  "download_images io pinfo output_dir =
     (let images_dir = path_join output_dir ''images'' in
      bind_res (mkdir_images io images_dir) (\<lambda>_.
        Inr (pinfo\<lparr>local_images := download_loop io images_dir 1 (main_images pinfo) []\<rparr>)))"

section \<open>Scraper, session and factory\<close>

text \<open>
  The scraper object, and the part of the machine that construction and launch can touch:
  the home directory and the number of browser contexts launched so far.
\<close>

datatype handle = Handle nat

record TaobaoScraper =
  headless :: bool
  user_agent :: string
  timeout :: int
  user_data_dir :: string
  browser_context :: "handle option"
  playwright_handle :: "handle option"

record world =
  home_dir :: string
  browsers_launched :: nat

text \<open>The keyword arguments of the constructor; \<open>None\<close> is an argument not given.\<close>

record scraper_kwargs =
  kw_headless :: "bool option"
  kw_user_agent :: "string option"
  kw_timeout :: "int option"
  kw_user_data_dir :: "string option"

definition default_user_agent :: string where
  "default_user_agent =
     ''Mozilla/5.0 (Macintosh; Intel Mac OS X 10_15_7) '' @
     ''AppleWebKit/537.36 (KHTML, like Gecko) Chrome/120.0.0.0 Safari/537.36''"

definition DEFAULT_USER_DATA_DIR :: "world \<Rightarrow> string" where
  "DEFAULT_USER_DATA_DIR w =
     path_join (path_join (posix_path (home_dir w)) ''.pixelle'') ''browser_data''"

text \<open>\<open>TaobaoScraper.__init__\<close>: it assigns fields and leaves the machine as it is.\<close>

definition TaobaoScraper_init :: "scraper_kwargs \<Rightarrow> world \<Rightarrow> TaobaoScraper \<times> world" where
  "TaobaoScraper_init kw w =
     (\<lparr>headless = (case kw_headless kw of None \<Rightarrow> True | Some h \<Rightarrow> h),
       user_agent =
         (case kw_user_agent kw of
            None \<Rightarrow> default_user_agent
          | Some ua \<Rightarrow> if ua \<noteq> [] then ua else default_user_agent),
       timeout = (case kw_timeout kw of None \<Rightarrow> 30000 | Some t \<Rightarrow> t),
       user_data_dir =
         (case kw_user_data_dir kw of
            None \<Rightarrow> DEFAULT_USER_DATA_DIR w
          | Some d \<Rightarrow> if d \<noteq> [] then posix_path d else DEFAULT_USER_DATA_DIR w),
       browser_context = None,
       playwright_handle = None\<rparr>, w)"

text \<open>
  What one \<open>scrape\<close> call meets outside the page's queries: the outcome of each browser
  and file-system call, the images the response listener has captured when extraction
  starts, the signal that arrives, if any, while the page is read (during extraction,
  during \<open>page.content()\<close>, during the downloads), and two readings of the clock.
\<close>

record browser =
  start_playwright_r :: "raised + unit"
  mkdir_profile_r :: "raised + unit"
  launch_r :: "raised + unit"
  mkdir_output_r :: "raised + unit"
  new_page_r :: "raised + unit"
  listen_r :: "raised + unit"
  goto_r :: "raised + unit"
  settle_r :: "raised + unit"
  wait_gallery_r :: "raised + unit"
  settle_gallery_r :: "raised + unit"
  loaded_page :: page
  captured_api_images :: "string list"
  extract_signal :: "string option"
  screenshot_r :: "raised + unit"
  content_signal :: "string option"
  write_html_r :: "raised + unit"
  write_json_r :: "raised + unit"
  images_io :: fetcher
  download_signal :: "string option"
  close_page_r :: "raised + unit"
  clock_start :: real
  clock_end :: real

text \<open>
  \<open>_ensure_browser\<close>: nothing when a context is cached; otherwise Playwright is started,
  the profile directory created and the persistent context launched.
\<close>

definition ensure_browser ::
  "browser \<Rightarrow> TaobaoScraper \<Rightarrow> world \<Rightarrow> (raised + unit) \<times> TaobaoScraper \<times> world" where
  "ensure_browser br self w =
     (if browser_context self = None then
        (case start_playwright_r br of
           Inl e \<Rightarrow> (Inl e, self, w)
         | Inr _ \<Rightarrow>
             (let self1 = self\<lparr>playwright_handle := Some (Handle (browsers_launched w))\<rparr> in
              case mkdir_profile_r br of
                Inl e \<Rightarrow> (Inl e, self1, w)
              | Inr _ \<Rightarrow>
                  (case launch_r br of
                     Inl e \<Rightarrow> (Inl e, self1, w)
                   | Inr _ \<Rightarrow>
                       (Inr (),
                        self1\<lparr>browser_context := Some (Handle (browsers_launched w))\<rparr>,
                        w\<lparr>browsers_launched := browsers_launched w + 1\<rparr>))))
      else (Inr (), self, w))"

text \<open>
  \<open>str.lower\<close> on code points below 256: the letters \<open>A\<close> to \<open>Z\<close> and the capitals
  from 192 to 222 other than the multiplication sign (215) move up by 32.
\<close>

definition lower_char :: "char \<Rightarrow> char" where
  "lower_char c =
     (let n = (of_char c :: nat) in
      if (65 \<le> n \<and> n \<le> 90) \<or> (192 \<le> n \<and> n \<le> 222 \<and> n \<noteq> 215) then char_of (n + 32) else c)"

definition py_lower :: "string \<Rightarrow> string" where
  "py_lower s = map lower_char s"

text \<open>
  The registry \<open>ScraperFactory._scrapers\<close> and its two operations. Both errors of
  \<open>create\<close> are \<open>ValueError\<close>s; the constructors keep what their messages are built from.
\<close>

datatype scraper_class = TaobaoScraper_class

datatype ValueError =
  Cannot_detect_platform string
| Unsupported_platform string "string list"

definition register ::
  "(string, scraper_class) pydict \<Rightarrow> string \<Rightarrow> scraper_class \<Rightarrow> (string, scraper_class) pydict" where
  "register scrapers plat cls = dict_set scrapers (py_lower plat) cls"

text \<open>The registry after \<open>taobao.py\<close> is imported.\<close>

definition registered_scrapers :: "(string, scraper_class) pydict" where
  "registered_scrapers =
     register (register [] ''taobao'' TaobaoScraper_class) ''tmall'' TaobaoScraper_class"

definition create ::
  "(string, scraper_class) pydict \<Rightarrow> string \<Rightarrow> scraper_kwargs \<Rightarrow> world
     \<Rightarrow> (ValueError + TaobaoScraper) \<times> world" where
  "create scrapers plat kwargs w =
     (let p = py_lower plat in
      case (if prefix ''http'' p then
              (if py_in ''taobao.com'' p \<or> py_in ''tmall.com'' p then Inr ''taobao''
               else Inl (Cannot_detect_platform p))
            else Inr p) of
        Inl err \<Rightarrow> (Inl err, w)
      | Inr p' \<Rightarrow>
          (case map_of scrapers p' of
             None \<Rightarrow> (Inl (Unsupported_platform p' (dict_keys scrapers)), w)
           | Some TaobaoScraper_class \<Rightarrow>
               (case TaobaoScraper_init kwargs w of (s, w') \<Rightarrow> (Inr s, w'))))"

definition from_url ::
  "(string, scraper_class) pydict \<Rightarrow> string \<Rightarrow> scraper_kwargs \<Rightarrow> world
     \<Rightarrow> (ValueError + TaobaoScraper) \<times> world" where
  "from_url scrapers u kwargs w = create scrapers u kwargs w"

text \<open>
  The network location of a URL as \<open>urlsplit\<close> cuts it: leading control characters and
  spaces are stripped, tabs, carriage returns and newlines removed; the text before the
  first colon is a scheme, and is cut off with the colon, when it starts with a letter
  and holds only letters, digits, \<open>+\<close>, \<open>-\<close> and \<open>.\<close>; the network location is what
  follows \<open>//\<close> there, up to the first of \<open>/\<close>, \<open>?\<close> and \<open>#\<close>. It is what a URL's domain
  is read from.
\<close>

definition is_alpha_ascii :: "char \<Rightarrow> bool" where
  "is_alpha_ascii c =
     (c \<in> set ''abcdefghijklmnopqrstuvwxyzABCDEFGHIJKLMNOPQRSTUVWXYZ'')"

definition is_scheme_char :: "char \<Rightarrow> bool" where
  "is_scheme_char c = (is_alnum_ascii c \<or> c \<in> set ''+-.'')"

definition after_scheme :: "string \<Rightarrow> string" where
  "after_scheme v =
     (let before_colon = takeWhile (\<lambda>c. c \<noteq> CHR '':'') v in
      if CHR '':'' \<in> set v \<and> before_colon \<noteq> [] \<and> is_alpha_ascii (hd before_colon) \<and>
         list_all is_scheme_char before_colon
      then drop (length before_colon + 1) v
      else v)"

definition url_netloc :: "string \<Rightarrow> string" where
  "url_netloc u =
     (let stripped = dropWhile (\<lambda>c. (of_char c :: nat) \<le> 32) u;
          cleaned = filter (\<lambda>c. c \<notin> set [CHR 0x09, CHR 0x0D, CHR 0x0A]) stripped;
          rest = after_scheme cleaned
      in if prefix ''//'' rest
         then takeWhile (\<lambda>c. c \<notin> set ''/?#'') (drop 2 rest)
         else [])"

section \<open>The scrape call\<close>






section \<open>Notions of the specification\<close>

text \<open>
  Deduplication that keeps first-seen order: an element stays where it first occurs and
  its later copies are removed.
\<close>

fun first_occurrences :: "'a list \<Rightarrow> 'a list" where
  "first_occurrences [] = []"
| "first_occurrences (x # xs) = x # filter (\<lambda>y. y \<noteq> x) (first_occurrences xs)"

text \<open>
  The most frequent element of a list, the first in list order among those of the
  largest count.
\<close>

definition most_frequent_first :: "'a list \<Rightarrow> 'a option" where
  "most_frequent_first xs =
     find (\<lambda>t. \<forall>t' \<in> set xs. count_list xs t' \<le> count_list xs t) xs"

text \<open>
  The \<open>i\<close>-th download succeeds: the navigation returns a response of status 200, its
  body can be read and the file is written.
\<close>

definition fetched :: "fetcher \<Rightarrow> string \<Rightarrow> nat \<Rightarrow> string \<Rightarrow> bool" where
  "fetched io images_dir i u0 =
     (case goto_image io i (fix_protocol u0) of
        Inr (Response status (Inr content)) \<Rightarrow>
          status = 200 \<and>
          (case write_file io (image_path images_dir i (fix_protocol u0)) content of
             Inr _ \<Rightarrow> True
           | Inl _ \<Rightarrow> False)
      | _ \<Rightarrow> False)"

text \<open>The value a string of decimal digits denotes.\<close>

definition read_decimal :: "string \<Rightarrow> nat" where
  "read_decimal s = foldl (\<lambda>n c. 10 * n + (of_char c - 48)) 0 s"

text \<open>
  Deduplication by a key that keeps first-seen order: an element stays where its key
  first occurs and the later elements of that key are removed.
\<close>

fun first_by_key :: "('a \<Rightarrow> 'k) \<Rightarrow> 'a list \<Rightarrow> 'a list" where
  "first_by_key f [] = []"
| "first_by_key f (x # xs) = x # filter (\<lambda>y. f y \<noteq> f x) (first_by_key f xs)"

text \<open>The candidates that take part in deduplication: not rejected, and with an identifier.\<close>

definition identified :: "string option \<Rightarrow> string \<Rightarrow> bool" where
  "identified seller_id u = (\<not> seller_rejects seller_id u \<and> search_img_id u \<noteq> None)"

text \<open>
  A rewrite pattern matches somewhere in a string; a URL is resolved when none of the
  three patterns does.
\<close>

fun match_anywhere :: "(string \<Rightarrow> string option) \<Rightarrow> string \<Rightarrow> bool" where
  "match_anywhere m [] = False"
| "match_anywhere m (c # cs) = (m (c # cs) \<noteq> None \<or> match_anywhere m cs)"

definition resolved :: "string \<Rightarrow> bool" where
  "resolved u =
     (\<not> match_anywhere match_quality_webp u \<and> \<not> match_anywhere match_quality_jpg u \<and>
      \<not> match_anywhere match_size_webp u)"

text \<open>
  A field \<open>name=value\<close> of a query, as written in the URL: its decoded name, its decoded
  value, and whether it is a field named \<open>id\<close> with a value that is not empty.
\<close>

definition field_name :: "urllib \<Rightarrow> string \<Rightarrow> string" where
  "field_name lib f = unquote lib (plus_to_space (takeWhile (\<lambda>c. c \<noteq> CHR ''='') f))"

definition field_value :: "urllib \<Rightarrow> string \<Rightarrow> string" where
  "field_value lib f =
     unquote lib (plus_to_space (drop 1 (dropWhile (\<lambda>c. c \<noteq> CHR ''='') f)))"

definition is_id_field :: "urllib \<Rightarrow> string \<Rightarrow> bool" where
  "is_id_field lib f =
     (CHR ''='' \<in> set f \<and> drop 1 (dropWhile (\<lambda>c. c \<noteq> CHR ''='') f) \<noteq> [] \<and>
      field_name lib f = ''id'')"

text \<open>A step raises a signal; no signal arrives at any \<open>await\<close> of a \<open>scrape\<close> call.\<close>

definition signalled :: "raised + 'a \<Rightarrow> bool" where
  "signalled outcome = (case outcome of Inl (Signal s) \<Rightarrow> True | _ \<Rightarrow> False)"


section \<open>Example inputs\<close>

text \<open>A page on which every query finds nothing.\<close>

definition blank_page :: page where
  "blank_page =
     \<lparr>page_content = Inr [], query_texts = (\<lambda>_. Inr []), gallery = Inr None,
      title_result = Inr [], price_result = None, shop_name_result = None,
      text_result = (\<lambda>_. None)\<rparr>"

text \<open>
  Ten elements under the first highlight selector, five under the third, and a query
  that fails under every other selector.
\<close>

definition fifteen_highlights_page :: page where
  "fifteen_highlights_page =
     blank_page\<lparr>query_texts := (\<lambda>sel.
        if sel = class_has ''highlight'' @ '' span'' then
          Inr (map Inr ['' point 01 '', ''point 02'', ''point 03'', ''point 04'', ''point 05'',
                        ''point 06'', ''point 07'', ''point 08'', ''point 09'', ''point 10''])
        else if sel = class_has ''sellPoint'' then
          Inr (map Inr [''point 11'', ''point 12'', ''point 13'', ''point 14'', ''point 15''])
        else Inl ''Timeout'')\<rparr>"

text \<open>
  A markup with the seller token \<open>2211714949103\<close> five times, the seller token
  \<open>3344556677889\<close> twice (its first occurrence before the other's) and the platform
  token \<open>6000000001234\<close> ten times.
\<close>

definition vote_markup :: string where
  "vote_markup =
     ''a_!!6000000001234.png b_!!6000000001234.png c_!!3344556677889.jpg '' @
     ''d_!!2211714949103.jpg e_!!6000000001234.png f_!!2211714949103.jpg '' @
     ''g_!!6000000001234.png h_!!3344556677889.jpg i_!!6000000001234.png '' @
     ''j_!!2211714949103.jpg k_!!6000000001234.png l_!!2211714949103.jpg '' @
     ''m_!!6000000001234.png n_!!2211714949103.jpg o_!!6000000001234.png '' @
     ''p_!!6000000001234.png q_!!6000000001234.png''"

text \<open>A page with that markup.\<close>

definition vote_page :: page where
  "vote_page = blank_page\<lparr>page_content := Inr vote_markup\<rparr>"

text \<open>
  A fetcher that answers 404 for \<open>b.jpg\<close> and 200 for every other URL, with every
  write and directory creation succeeding; and a product with three main images, the
  first of them protocol-relative.
\<close>

definition second_fails_io :: fetcher where
  "second_fails_io =
     \<lparr>goto_image = (\<lambda>i u. if u = ''https://img.example/b.jpg''
                            then Inr (Response 404 (Inr ''not found''))
                            else Inr (Response 200 (Inr ''bytes''))),
      write_file = (\<lambda>path content. Inr ()),
      mkdir_images = (\<lambda>path. Inr ())\<rparr>"

definition three_images_product :: ProductInfo where
  "three_images_product =
     (new_product ''https://item.taobao.com/item.htm?id=1'' ''taobao'' (Some ''1''))
       \<lparr>main_images := [''//img.example/a.jpg'', ''https://img.example/b.jpg'',
                        ''https://img.example/c.png'']\<rparr>"

text \<open>
  A fetcher for which every download succeeds, and a product with one hundred main
  images.
\<close>

definition always_ok_io :: fetcher where
  "always_ok_io =
     \<lparr>goto_image = (\<lambda>i u. Inr (Response 200 (Inr ''bytes''))),
      write_file = (\<lambda>path content. Inr ()),
      mkdir_images = (\<lambda>path. Inr ())\<rparr>"

definition hundred_images_product :: ProductInfo where
  "hundred_images_product =
     (new_product ''https://item.taobao.com/item.htm?id=1'' ''taobao'' (Some ''1''))
       \<lparr>main_images := replicate 100 ''https://img.example/a.jpg''\<rparr>"

text \<open>Constructor arguments all left at their defaults, and a machine with no browser.\<close>

definition no_kwargs :: scraper_kwargs where
  "no_kwargs =
     \<lparr>kw_headless = None, kw_user_agent = None, kw_timeout = None, kw_user_data_dir = None\<rparr>"

definition fresh_world :: world where
  "fresh_world = \<lparr>home_dir = ''/home/user'', browsers_launched = 0\<rparr>"


text \<open>
  The library on URLs without percent escapes and with a plain host: every URL is
  accepted and decoding changes nothing.
\<close>

definition plain_urllib :: urllib where
  "plain_urllib = \<lparr>url_error = (\<lambda>u. None), unquote = (\<lambda>s. s)\<rparr>"

text \<open>
  Five candidates: two renditions of one image of seller \<open>2211714949103\<close>, another image
  of that seller, a platform asset and a URL without an identifier.
\<close>

definition sample_candidates :: "string list" where
  "sample_candidates =
     [''//img.alicdn.com/imgextra/i1/2211714949103/O1CN01aaa1_!!2211714949103.jpg_q50.jpg_.webp'',
      ''//img.alicdn.com/imgextra/i4/6000000001234/O1CN01ccc3_!!6000000001234-2-tps.png'',
      ''//img.alicdn.com/imgextra/i2/2211714949103/O1CN01bbb2_!!2211714949103.jpg'',
      ''//img.alicdn.com/imgextra/i1/2211714949103/O1CN01aaa1_!!2211714949103.jpg_400x400q90.jpg_.webp'',
      ''//img.alicdn.com/tps/banner.png'']"

text \<open>
  A page whose markup holds no seller token and whose gallery shows the five candidates,
  with a thumbnail without \<open>src\<close> among them.
\<close>

definition no_seller_page :: page where
  "no_seller_page =
     blank_page\<lparr>page_content := Inr ''<html><body>no tokens here</body></html>'',
                gallery := Inr (Some (Inr (Inr None # map (\<lambda>u. Inr (Some u)) sample_candidates)))\<rparr>"

text \<open>
  A page without seller token whose gallery shows one image, a banner without an
  identifier.
\<close>

definition banner_page :: page where
  "banner_page =
     blank_page\<lparr>gallery := Inr (Some (Inr [Inr (Some ''//img.alicdn.com/tps/banner.png'')]))\<rparr>"




section \<open>Properties\<close>

subsection \<open>Deduplication in first-seen order\<close>

lemma set_first_occurrences: "set (first_occurrences xs) = set xs"
  by (induction xs) auto

lemma distinct_first_occurrences: "distinct (first_occurrences xs)"
  by (induction xs) auto

lemma subseq_first_occurrences: "subseq (first_occurrences xs) xs"
proof (induction xs)
  case Nil
  show ?case by simp
next
  case (Cons x xs)
  have "subseq (filter (\<lambda>y. y \<noteq> x) (first_occurrences xs)) (first_occurrences xs)"
    by simp
  from this Cons.IH have "subseq (filter (\<lambda>y. y \<noteq> x) (first_occurrences xs)) xs"
    by (rule subseq_order.trans)
  then show ?case by simp
qed

lemma first_occurrences_distinct: "distinct xs \<Longrightarrow> first_occurrences xs = xs"
proof (induction xs)
  case Nil
  show ?case by simp
next
  case (Cons x xs)
  then have "filter (\<lambda>y. y \<noteq> x) xs = xs"
    by (auto intro: filter_True)
  with Cons show ?case by simp
qed

lemma dict_keys_dict_set:
  "dict_keys (dict_set d k v) = (if k \<in> set (dict_keys d) then dict_keys d else dict_keys d @ [k])"
  by (induction d) (force simp: dict_keys_def)+

lemma dict_keys_foldl_set:
  "dict_keys (foldl (\<lambda>d k. dict_set d k v) d0 xs) =
     dict_keys d0 @ filter (\<lambda>x. x \<notin> set (dict_keys d0)) (first_occurrences xs)"
proof (induction xs arbitrary: d0)
  case Nil
  show ?case by simp
next
  case (Cons x xs)
  show ?case
  proof (cases "x \<in> set (dict_keys d0)")
    case True
    have "filter (\<lambda>y. y \<notin> set (dict_keys d0)) (filter (\<lambda>y. y \<noteq> x) (first_occurrences xs))
          = filter (\<lambda>y. y \<notin> set (dict_keys d0)) (first_occurrences xs)"
      using True by (auto intro: filter_cong)
    with True show ?thesis by (simp add: Cons.IH dict_keys_dict_set)
  next
    case False
    have "filter (\<lambda>y. y \<noteq> x \<and> y \<notin> set (dict_keys d0)) (first_occurrences xs)
          = filter (\<lambda>y. y \<notin> set (dict_keys d0)) (filter (\<lambda>y. y \<noteq> x) (first_occurrences xs))"
      by (auto intro: filter_cong)
    with False show ?thesis by (simp add: Cons.IH dict_keys_dict_set conj_commute)
  qed
qed

lemma dict_keys_fromkeys: "dict_keys (dict_fromkeys xs) = first_occurrences xs"
  by (simp add: dict_fromkeys_def dict_keys_foldl_set) (simp add: dict_keys_def)

lemma capped_dedup:
  "distinct (take n (first_occurrences xs)) \<and> length (take n (first_occurrences xs)) \<le> n \<and>
   subseq (take n (first_occurrences xs)) xs"
proof -
  have "subseq (take n (first_occurrences xs)) (first_occurrences xs)"
    by (simp add: prefix_imp_subseq take_is_prefix)
  then have "subseq (take n (first_occurrences xs)) xs"
    using subseq_first_occurrences by (rule subseq_order.trans)
  then show ?thesis by (simp add: distinct_first_occurrences)
qed


lemma fifteen_highlights_candidates:
  "highlight_candidates fifteen_highlights_page =
     [''point 01'', ''point 02'', ''point 03'', ''point 04'', ''point 05'',
      ''point 06'', ''point 07'', ''point 08'', ''point 09'', ''point 10'',
      ''point 11'', ''point 12'', ''point 13'', ''point 14'', ''point 15'']"
  by (simp add: highlight_candidates_def highlight_selectors_def fifteen_highlights_page_def
      blank_page_def class_has_def py_strip_def py_isspace_def py_space_codes_def)

text \<open>
  Claim C7. Each of the highlights, services and promotions extractors returns the
  collected strings deduplicated in first-seen order and cut to its cap: at most 8
  highlights, 6 services and 5 promotions, without repetition, in the order of
  collection. When the collected highlight strings are 15 distinct ones, the extractor
  returns the first 8 of them in their original order.
\<close>

theorem extractors_dedup_and_cap:
  "extract_highlights pg = take 8 (first_occurrences (highlight_candidates pg)) \<and>
   distinct (extract_highlights pg) \<and> length (extract_highlights pg) \<le> 8 \<and>
   subseq (extract_highlights pg) (highlight_candidates pg) \<and>
   extract_services pg = take 6 (first_occurrences (service_candidates pg)) \<and>
   distinct (extract_services pg) \<and> length (extract_services pg) \<le> 6 \<and>
   subseq (extract_services pg) (service_candidates pg) \<and>
   extract_promotions pg = take 5 (first_occurrences (promotion_candidates pg)) \<and>
   distinct (extract_promotions pg) \<and> length (extract_promotions pg) \<le> 5 \<and>
   subseq (extract_promotions pg) (promotion_candidates pg) \<and>
   (distinct (highlight_candidates pg) \<and> length (highlight_candidates pg) = 15 \<longrightarrow>
      extract_highlights pg = take 8 (highlight_candidates pg) \<and>
      length (extract_highlights pg) = 8)"
proof -
  have h: "extract_highlights pg = take 8 (first_occurrences (highlight_candidates pg))"
    by (simp add: extract_highlights_def dict_keys_fromkeys)
  have s: "extract_services pg = take 6 (first_occurrences (service_candidates pg))"
    by (simp add: extract_services_def dict_keys_fromkeys)
  have p: "extract_promotions pg = take 5 (first_occurrences (promotion_candidates pg))"
    by (simp add: extract_promotions_def dict_keys_fromkeys)
  have fifteen: "extract_highlights pg = take 8 (highlight_candidates pg) \<and>
      length (extract_highlights pg) = 8"
    if "distinct (highlight_candidates pg)" "length (highlight_candidates pg) = 15"
    using that by (simp add: h first_occurrences_distinct)
  from h s p fifteen show ?thesis
    using capped_dedup [of 8 "highlight_candidates pg"]
      capped_dedup [of 6 "service_candidates pg"]
      capped_dedup [of 5 "promotion_candidates pg"]
    by simp
qed

theorem extractors_dedup_and_cap_witness:
  "distinct (highlight_candidates fifteen_highlights_page) \<and>
   length (highlight_candidates fifteen_highlights_page) = 15 \<and>
   extract_highlights fifteen_highlights_page =
     [''point 01'', ''point 02'', ''point 03'', ''point 04'', ''point 05'',
      ''point 06'', ''point 07'', ''point 08'']"
  using extractors_dedup_and_cap [of fifteen_highlights_page]
  by (simp add: fifteen_highlights_candidates)

subsection \<open>The seller-identity vote\<close>

lemma first_occurrences_snoc:
  "first_occurrences (xs @ [x]) =
     (if x \<in> set xs then first_occurrences xs else first_occurrences xs @ [x])"
  by (induction xs) auto

lemma counter_add_tabulate:
  "distinct ks \<Longrightarrow>
   counter_add (map (\<lambda>k. (k, f k)) ks) x =
     (if x \<in> set ks then map (\<lambda>k. (k, if k = x then f k + 1 else f k)) ks
      else map (\<lambda>k. (k, f k)) ks @ [(x, 1)])"
  by (induction ks) auto

lemma Counter_snoc: "Counter (xs @ [x]) = counter_add (Counter xs) x"
  by (simp add: Counter_def)

lemma Counter_tabulate:
  "Counter xs = map (\<lambda>k. (k, count_list xs k)) (first_occurrences xs)"
proof (induction xs rule: rev_induct)
  case Nil
  show ?case by (simp add: Counter_def)
next
  case (snoc x xs)
  have d: "distinct (first_occurrences xs)"
    by (rule distinct_first_occurrences)
  show ?case
  proof (cases "x \<in> set xs")
    case True
    then show ?thesis
      by (simp add: Counter_snoc snoc.IH counter_add_tabulate [OF d]
          first_occurrences_snoc set_first_occurrences)
  next
    case False
    then have "\<forall>k \<in> set xs. x \<noteq> k" by auto
    with False show ?thesis
      by (simp add: Counter_snoc snoc.IH counter_add_tabulate [OF d]
          first_occurrences_snoc set_first_occurrences)
  qed
qed

lemma max_by_count_first:
  "(max_by_count best kvs = best \<and> (\<forall>y \<in> set kvs. snd y \<le> snd best)) \<or>
   (\<exists>pre post. kvs = pre @ max_by_count best kvs # post \<and>
      snd best < snd (max_by_count best kvs) \<and>
      (\<forall>y \<in> set pre. snd y < snd (max_by_count best kvs)) \<and>
      (\<forall>y \<in> set post. snd y \<le> snd (max_by_count best kvs)))"
proof (induction kvs arbitrary: best)
  case Nil
  show ?case by simp
next
  case (Cons kv kvs)
  show ?case
  proof (cases "snd kv > snd best")
    case True
    from Cons.IH [of kv] show ?thesis
    proof
      assume a: "max_by_count kv kvs = kv \<and> (\<forall>y \<in> set kvs. snd y \<le> snd kv)"
      with True have "kv # kvs = [] @ max_by_count best (kv # kvs) # kvs" by simp
      with a True show ?thesis by (intro disjI2 exI [of _ "[]"] exI [of _ kvs]) simp
    next
      assume "\<exists>pre post. kvs = pre @ max_by_count kv kvs # post \<and>
        snd kv < snd (max_by_count kv kvs) \<and>
        (\<forall>y \<in> set pre. snd y < snd (max_by_count kv kvs)) \<and>
        (\<forall>y \<in> set post. snd y \<le> snd (max_by_count kv kvs))"
      then obtain pre post where p: "kvs = pre @ max_by_count kv kvs # post"
        "snd kv < snd (max_by_count kv kvs)"
        "\<forall>y \<in> set pre. snd y < snd (max_by_count kv kvs)"
        "\<forall>y \<in> set post. snd y \<le> snd (max_by_count kv kvs)" by blast
      from p(1) have "kv # kvs = (kv # pre) @ max_by_count kv kvs # post" by simp
      with p True show ?thesis
        by (intro disjI2 exI [of _ "kv # pre"] exI [of _ post]) auto
    qed
  next
    case False
    from Cons.IH [of best] show ?thesis
    proof
      assume "max_by_count best kvs = best \<and> (\<forall>y \<in> set kvs. snd y \<le> snd best)"
      with False show ?thesis by auto
    next
      assume "\<exists>pre post. kvs = pre @ max_by_count best kvs # post \<and>
        snd best < snd (max_by_count best kvs) \<and>
        (\<forall>y \<in> set pre. snd y < snd (max_by_count best kvs)) \<and>
        (\<forall>y \<in> set post. snd y \<le> snd (max_by_count best kvs))"
      then obtain pre post where p: "kvs = pre @ max_by_count best kvs # post"
        "snd best < snd (max_by_count best kvs)"
        "\<forall>y \<in> set pre. snd y < snd (max_by_count best kvs)"
        "\<forall>y \<in> set post. snd y \<le> snd (max_by_count best kvs)" by blast
      from p(1) have "kv # kvs = (kv # pre) @ max_by_count best kvs # post" by simp
      with p False show ?thesis
        by (intro disjI2 exI [of _ "kv # pre"] exI [of _ post]) auto
    qed
  qed
qed

text \<open>The first item of the largest count, as a decomposition of the item list.\<close>

lemma most_common_1_first:
  assumes "d \<noteq> []"
  shows "\<exists>pre r post. most_common_1 d = [r] \<and> d = pre @ r # post \<and>
           (\<forall>y \<in> set pre. snd y < snd r) \<and> (\<forall>y \<in> set post. snd y \<le> snd r)"
proof -
  from assms obtain kv kvs where d: "d = kv # kvs" by (cases d) auto
  let ?r = "max_by_count kv kvs"
  from max_by_count_first [of kv kvs] show ?thesis
  proof
    assume "?r = kv \<and> (\<forall>y \<in> set kvs. snd y \<le> snd kv)"
    then show ?thesis
      by (intro exI [of _ "[]"] exI [of _ kv] exI [of _ kvs]) (simp add: d most_common_1_def)
  next
    assume "\<exists>pre post. kvs = pre @ ?r # post \<and> snd kv < snd ?r \<and>
        (\<forall>y \<in> set pre. snd y < snd ?r) \<and> (\<forall>y \<in> set post. snd y \<le> snd ?r)"
    then obtain pre post where p: "kvs = pre @ ?r # post" "snd kv < snd ?r"
        "\<forall>y \<in> set pre. snd y < snd ?r" "\<forall>y \<in> set post. snd y \<le> snd ?r" by blast
    from p(1) have "d = (kv # pre) @ ?r # post" by (simp add: d)
    with p show ?thesis
      by (intro exI [of _ "kv # pre"] exI [of _ ?r] exI [of _ post])
        (auto simp: d most_common_1_def)
  qed
qed

lemma find_filter_weaker:
  "(\<And>y. P y \<Longrightarrow> Q y) \<Longrightarrow> find P (filter Q ys) = find P ys"
  by (induction ys) auto

lemma find_first_occurrences: "find P (first_occurrences xs) = find P xs"
proof (induction xs)
  case Nil
  show ?case by simp
next
  case (Cons x xs)
  show ?case
  proof (cases "P x")
    case True
    then show ?thesis by simp
  next
    case False
    then have "find P (filter (\<lambda>y. y \<noteq> x) (first_occurrences xs)) = find P (first_occurrences xs)"
      by (intro find_filter_weaker) auto
    with False Cons.IH show ?thesis by simp
  qed
qed

lemma find_split:
  "(\<forall>y \<in> set pre. \<not> P y) \<Longrightarrow> P r \<Longrightarrow> find P (pre @ r # post) = Some r"
  by (induction pre) auto

lemma most_common_1_vote:
  assumes "xs \<noteq> []"
  shows "\<exists>w n. most_common_1 (Counter xs) = [(w, n)] \<and> most_frequent_first xs = Some w \<and>
           n = count_list xs w"
proof -
  let ?c = "\<lambda>k. count_list xs k"
  let ?d = "map (\<lambda>k. (k, ?c k)) (first_occurrences xs)"
  have fo: "first_occurrences xs \<noteq> []"
    using assms set_first_occurrences [of xs] by (cases "first_occurrences xs") auto
  then have "?d \<noteq> []" by simp
  from most_common_1_first [OF this]
  obtain pre r post where m: "most_common_1 ?d = [r]" "?d = pre @ r # post"
    "\<forall>y \<in> set pre. snd y < snd r" "\<forall>y \<in> set post. snd y \<le> snd r" by blast
  have items: "\<And>y. y \<in> set ?d \<Longrightarrow> snd y = ?c (fst y)" by auto
  have r_in: "r \<in> set ?d" by (simp add: m(2))
  then have r: "snd r = ?c (fst r)" by (rule items)
  have pre_in: "\<And>y. y \<in> set pre \<Longrightarrow> y \<in> set ?d" by (simp add: m(2))
  have post_in: "\<And>y. y \<in> set post \<Longrightarrow> y \<in> set ?d" by (simp add: m(2))
  have keys: "first_occurrences xs = map fst pre @ fst r # map fst post"
  proof -
    have "map fst ?d = first_occurrences xs" by (simp add: comp_def)
    then show ?thesis by (simp add: m(2))
  qed
  have r_set: "fst r \<in> set xs"
    using keys set_first_occurrences [of xs] by (metis in_set_conv_decomp)
  let ?P = "\<lambda>t. \<forall>t' \<in> set xs. ?c t' \<le> ?c t"
  have all_le: "?P (fst r)"
  proof
    fix t' assume "t' \<in> set xs"
    then have "t' \<in> set (first_occurrences xs)" by (simp add: set_first_occurrences)
    then have "(t', ?c t') \<in> set ?d" by auto
    then have "(t', ?c t') \<in> set pre \<or> (t', ?c t') = r \<or> (t', ?c t') \<in> set post"
      by (auto simp: m(2))
    then show "?c t' \<le> ?c (fst r)"
      using m(3,4) r by (metis fst_conv snd_conv less_imp_le order_refl)
  qed
  have pre_not: "\<forall>k \<in> set (map fst pre). \<not> ?P k"
  proof
    fix k assume "k \<in> set (map fst pre)"
    then obtain y where y: "y \<in> set pre" "k = fst y" by auto
    then have "snd y = ?c k" using items pre_in by simp
    with m(3) y r have "?c k < ?c (fst r)" by metis
    with r_set show "\<not> ?P k" by (auto simp: not_le)
  qed
  have "find ?P (first_occurrences xs) = Some (fst r)"
    unfolding keys using pre_not all_le by (rule find_split)
  then have "most_frequent_first xs = Some (fst r)"
    by (simp add: most_frequent_first_def find_first_occurrences)
  moreover have "most_common_1 (Counter xs) = [(fst r, snd r)]"
    by (simp add: Counter_tabulate m(1))
  ultimately show ?thesis using r by blast
qed

lemma count_list_filter:
  "count_list (filter P xs) x = (if P x then count_list xs x else 0)"
  by (induction xs) auto

lemma find_unique:
  "x \<in> set xs \<Longrightarrow> P x \<Longrightarrow> (\<forall>y \<in> set xs. P y \<longrightarrow> y = x) \<Longrightarrow> find P xs = Some x"
proof (induction xs)
  case Nil
  then show ?case by simp
next
  case (Cons a xs)
  show ?case
  proof (cases "P a")
    case True
    with Cons.prems(3) have "a = x" by simp
    with True show ?thesis by simp
  next
    case False
    with Cons.prems(1,2) have 1: "x \<in> set xs" by auto
    from Cons.prems(3) have 2: "\<forall>y \<in> set xs. P y \<longrightarrow> y = x" by simp
    from 1 Cons.prems(2) 2 have "find P xs = Some x" by (rule Cons.IH)
    with False show ?thesis by simp
  qed
qed

lemma extract_seller_id_vote:
  assumes "page_content pg = Inr content" "real_ids content \<noteq> []"
  shows "extract_seller_id pg = most_frequent_first (real_ids content)"
proof -
  from most_common_1_vote [OF assms(2)]
  obtain w n where "most_common_1 (Counter (real_ids content)) = [(w, n)]"
    "most_frequent_first (real_ids content) = Some w" by blast
  with assms show ?thesis by (simp add: extract_seller_id_def)
qed

lemma vote_markup_tokens:
  "findall_seller_tokens vote_markup =
     [''6000000001234'', ''6000000001234'', ''3344556677889'', ''2211714949103'',
      ''6000000001234'', ''2211714949103'', ''6000000001234'', ''3344556677889'',
      ''6000000001234'', ''2211714949103'', ''6000000001234'', ''2211714949103'',
      ''6000000001234'', ''2211714949103'', ''6000000001234'', ''6000000001234'',
      ''6000000001234'']"
  by code_simp

text \<open>
  Claim C3. For every page markup, when some seller token outside the platform range
  (not starting with \<open>6000000\<close>) occurs, the seller identity is the most frequent
  such token, the first in scan order among those of the largest count. For a markup
  whose tokens are \<open>A\<close> five times, \<open>B\<close> twice and a platform token ten times,
  it is \<open>A\<close>.
\<close>

theorem seller_identity_vote:
  assumes "page_content pg = Inr content"
  shows "(real_ids content \<noteq> [] \<longrightarrow>
            extract_seller_id pg = most_frequent_first (real_ids content)) \<and>
         (set (findall_seller_tokens content) = {A, B, G} \<and>
          count_list (findall_seller_tokens content) A = 5 \<and>
          count_list (findall_seller_tokens content) B = 2 \<and>
          count_list (findall_seller_tokens content) G = 10 \<and>
          prefix ''6000000'' G \<and> \<not> prefix ''6000000'' A \<and> \<not> prefix ''6000000'' B \<longrightarrow>
            extract_seller_id pg = Some A)"
proof (intro conjI impI)
  assume "real_ids content \<noteq> []"
  with assms show "extract_seller_id pg = most_frequent_first (real_ids content)"
    by (rule extract_seller_id_vote)
next
  let ?all = "findall_seller_tokens content"
  let ?real = "real_ids content"
  assume a: "set ?all = {A, B, G} \<and> count_list ?all A = 5 \<and> count_list ?all B = 2 \<and>
     count_list ?all G = 10 \<and> prefix ''6000000'' G \<and> \<not> prefix ''6000000'' A \<and>
     \<not> prefix ''6000000'' B"
  then have set_real: "set ?real = {A, B}"
    by (auto simp: real_ids_def)
  have cA: "count_list ?real A = 5" and cB: "count_list ?real B = 2"
    using a by (simp_all add: real_ids_def count_list_filter)
  from set_real have ne: "?real \<noteq> []" by auto
  have "find (\<lambda>t. \<forall>t' \<in> set ?real. count_list ?real t' \<le> count_list ?real t) ?real = Some A"
  proof (rule find_unique)
    show "A \<in> set ?real" by (simp add: set_real)
    show "\<forall>t' \<in> set ?real. count_list ?real t' \<le> count_list ?real A"
      by (simp add: set_real cA cB)
    show "\<forall>y \<in> set ?real. (\<forall>t' \<in> set ?real. count_list ?real t' \<le> count_list ?real y) \<longrightarrow> y = A"
      by (simp add: set_real cA cB)
  qed
  then have "most_frequent_first ?real = Some A"
    by (simp add: most_frequent_first_def)
  with extract_seller_id_vote [OF assms ne] show "extract_seller_id pg = Some A" by simp
qed

theorem seller_identity_vote_witness:
  "page_content vote_page = Inr vote_markup \<and>
   real_ids vote_markup \<noteq> [] \<and>
   set (findall_seller_tokens vote_markup) =
     {''2211714949103'', ''3344556677889'', ''6000000001234''} \<and>
   count_list (findall_seller_tokens vote_markup) ''2211714949103'' = 5 \<and>
   count_list (findall_seller_tokens vote_markup) ''3344556677889'' = 2 \<and>
   count_list (findall_seller_tokens vote_markup) ''6000000001234'' = 10 \<and>
   extract_seller_id vote_page = Some ''2211714949103'' \<and>
   most_frequent_first (real_ids vote_markup) = Some ''2211714949103''"
proof -
  have pc: "page_content vote_page = Inr vote_markup"
    by (simp add: vote_page_def blank_page_def)
  have s: "set (findall_seller_tokens vote_markup) =
     {''2211714949103'', ''3344556677889'', ''6000000001234''}"
    unfolding vote_markup_tokens by auto
  have r: "real_ids vote_markup \<noteq> []"
    by (simp add: real_ids_def vote_markup_tokens)
  have c5: "count_list (findall_seller_tokens vote_markup) ''2211714949103'' = 5"
    by (simp add: vote_markup_tokens)
  have c2: "count_list (findall_seller_tokens vote_markup) ''3344556677889'' = 2"
    by (simp add: vote_markup_tokens)
  have c10: "count_list (findall_seller_tokens vote_markup) ''6000000001234'' = 10"
    by (simp add: vote_markup_tokens)
  have p: "prefix ''6000000'' ''6000000001234'' \<and> \<not> prefix ''6000000'' ''2211714949103'' \<and>
     \<not> prefix ''6000000'' ''3344556677889''"
    by simp
  note v = seller_identity_vote [where pg = vote_page and content = vote_markup
      and A = "''2211714949103''" and B = "''3344556677889''" and G = "''6000000001234''", OF pc]
  have hyp: "set (findall_seller_tokens vote_markup) =
       {''2211714949103'', ''3344556677889'', ''6000000001234''} \<and>
     count_list (findall_seller_tokens vote_markup) ''2211714949103'' = 5 \<and>
     count_list (findall_seller_tokens vote_markup) ''3344556677889'' = 2 \<and>
     count_list (findall_seller_tokens vote_markup) ''6000000001234'' = 10 \<and>
     prefix ''6000000'' ''6000000001234'' \<and> \<not> prefix ''6000000'' ''2211714949103'' \<and>
     \<not> prefix ''6000000'' ''3344556677889''"
    by (intro conjI s c5 c2 c10 p [THEN conjunct1] p [THEN conjunct2, THEN conjunct1]
        p [THEN conjunct2, THEN conjunct2])
  have e: "extract_seller_id vote_page = Some ''2211714949103''"
    by (rule v [THEN conjunct2, THEN mp, OF hyp])
  have "extract_seller_id vote_page = most_frequent_first (real_ids vote_markup)"
    by (rule v [THEN conjunct1, THEN mp, OF r])
  with e have m: "most_frequent_first (real_ids vote_markup) = Some ''2211714949103''"
    by simp
  show ?thesis
    by (intro conjI pc r s c5 c2 c10 e m)
qed

subsection \<open>The image downloader\<close>

lemma download_loop_step:
  "download_loop io d i (u0 # us) local =
     download_loop io d (Suc i) us
       (if fetched io d i u0 then local @ [image_path d i (fix_protocol u0)] else local)"
  by (simp add: fetched_def Let_def split: sum.split response.split)

lemma download_loop_filter:
  "download_loop io d i us local =
     local @ map (\<lambda>(k, u). image_path d k (fix_protocol u))
               (filter (\<lambda>(k, u). fetched io d k u) (List.enumerate i us))"
proof (induction us arbitrary: i local)
  case Nil
  show ?case by simp
next
  case (Cons u0 us)
  show ?case
    unfolding download_loop_step Cons.IH by simp
qed

lemma download_images_filter:
  assumes "mkdir_images io (path_join out ''images'') = Inr ()"
  shows "download_images io p out =
     Inr (p\<lparr>local_images :=
            map (\<lambda>(k, u). image_path (path_join out ''images'') k (fix_protocol u))
              (filter (\<lambda>(k, u). fetched io (path_join out ''images'') k u)
                 (List.enumerate 1 (main_images p)))\<rparr>)"
  using assms by (simp add: download_images_def bind_res_def download_loop_filter Let_def)

text \<open>
  Claim C5. Once the images directory exists, the downloader returns for every URL list:
  \<open>local_images\<close> is the list of the paths written by the downloads that succeeded, in
  the order of their source URLs, whatever failed before or after each of them, and it
  is at most as long as the URL list. For three URLs of which the second gets a response
  whose status is not 200, it is exactly the paths of the first and the third.
\<close>

theorem download_skips_failures:
  assumes "d = path_join out ''images''" and "mkdir_images io d = Inr ()"
  shows "(\<exists>p'. download_images io p out = Inr p' \<and>
            local_images p' =
              map (\<lambda>(k, u). image_path d k (fix_protocol u))
                (filter (\<lambda>(k, u). fetched io d k u) (List.enumerate 1 (main_images p))) \<and>
            length (local_images p') \<le> length (main_images p)) \<and>
         (main_images p = [u1, u2, u3] \<and> fetched io d 1 u1 \<and>
          goto_image io 2 (fix_protocol u2) = Inr (Response status body) \<and> status \<noteq> 200 \<and>
          fetched io d 3 u3 \<longrightarrow>
            (\<exists>p'. download_images io p out = Inr p' \<and>
               local_images p' =
                 [image_path d 1 (fix_protocol u1), image_path d 3 (fix_protocol u3)]))"
proof (intro conjI impI)
  let ?kept = "filter (\<lambda>(k, u). fetched io d k u) (List.enumerate 1 (main_images p))"
  have "length ?kept \<le> length (List.enumerate 1 (main_images p))"
    by (rule length_filter_le)
  then have "length ?kept \<le> length (main_images p)" by simp
  then show "\<exists>p'. download_images io p out = Inr p' \<and>
       local_images p' = map (\<lambda>(k, u). image_path d k (fix_protocol u)) ?kept \<and>
       length (local_images p') \<le> length (main_images p)"
    using assms by (simp add: download_images_filter)
next
  assume a: "main_images p = [u1, u2, u3] \<and> fetched io d 1 u1 \<and>
          goto_image io 2 (fix_protocol u2) = Inr (Response status body) \<and> status \<noteq> 200 \<and>
          fetched io d 3 u3"
  then have "\<not> fetched io d 2 u2" by (simp add: fetched_def)
  with a have "filter (\<lambda>(k, u). fetched io d k u) (List.enumerate 1 (main_images p))
      = [(1, u1), (3, u3)]"
    by (simp add: enumerate_simps numeral_2_eq_2 numeral_3_eq_3)
  then show "\<exists>p'. download_images io p out = Inr p' \<and>
       local_images p' = [image_path d 1 (fix_protocol u1), image_path d 3 (fix_protocol u3)]"
    using assms by (simp add: download_images_filter)
qed

theorem download_skips_failures_witness:
  "mkdir_images second_fails_io (path_join ''out'' ''images'') = Inr () \<and>
   fetched second_fails_io ''out/images'' 1 ''//img.example/a.jpg'' \<and>
   goto_image second_fails_io 2 (fix_protocol ''https://img.example/b.jpg'')
     = Inr (Response 404 (Inr ''not found'')) \<and>
   fetched second_fails_io ''out/images'' 3 ''https://img.example/c.png'' \<and>
   (\<exists>p'. download_images second_fails_io three_images_product ''out'' = Inr p' \<and>
      local_images p' = [''out/images/main_01.jpg'', ''out/images/main_03.png''])"
proof -
  have d: "''out/images'' = path_join ''out'' ''images''"
    by (simp add: path_join_def)
  have m: "mkdir_images second_fails_io ''out/images'' = Inr ()"
    by (simp add: second_fails_io_def)
  have f1: "fetched second_fails_io ''out/images'' 1 ''//img.example/a.jpg''"
    by (simp add: fetched_def second_fails_io_def fix_protocol_def)
  have g2: "goto_image second_fails_io 2 (fix_protocol ''https://img.example/b.jpg'')
     = Inr (Response 404 (Inr ''not found''))"
    by (simp add: second_fails_io_def fix_protocol_def)
  have f3: "fetched second_fails_io ''out/images'' 3 ''https://img.example/c.png''"
    by (simp add: fetched_def second_fails_io_def fix_protocol_def)
  have mi: "main_images three_images_product =
      [''//img.example/a.jpg'', ''https://img.example/b.jpg'', ''https://img.example/c.png'']"
    by (simp add: three_images_product_def)
  have p1: "image_path ''out/images'' 1 (fix_protocol ''//img.example/a.jpg'')
      = ''out/images/main_01.jpg''"
    by (simp add: image_path_def fix_protocol_def path_join_def fmt_02d_def decimal.simps
        image_ext_def)
  have p3: "image_path ''out/images'' 3 (fix_protocol ''https://img.example/c.png'')
      = ''out/images/main_03.png''"
    by (simp add: image_path_def fix_protocol_def path_join_def fmt_02d_def decimal.simps
        image_ext_def)
  have n: "(404::nat) \<noteq> 200" by simp
  note t = download_skips_failures [OF d m, where p = three_images_product
      and ?u1.0 = "''//img.example/a.jpg''" and ?u2.0 = "''https://img.example/b.jpg''"
      and ?u3.0 = "''https://img.example/c.png''" and status = 404
      and body = "Inr ''not found''", THEN conjunct2, THEN mp,
      OF conjI [OF mi conjI [OF f1 conjI [OF g2 conjI [OF n f3]]]]]
  from t have "\<exists>p'. download_images second_fails_io three_images_product ''out'' = Inr p' \<and>
      local_images p' = [''out/images/main_01.jpg'', ''out/images/main_03.png'']"
    unfolding p1 p3 .
  with m f1 g2 f3 show ?thesis unfolding d [symmetric] by (intro conjI)
qed

lemma digit_char_value: "k < 10 \<Longrightarrow> of_char (''0123456789'' ! k) = (48 + k :: nat)"
proof -
  assume "k < 10"
  then have "k = 0 \<or> k = 1 \<or> k = 2 \<or> k = 3 \<or> k = 4 \<or> k = 5 \<or> k = 6 \<or> k = 7 \<or> k = 8 \<or> k = 9"
    by arith
  then show ?thesis
    by (elim disjE) simp_all
qed

lemma digit_char_is_digit: "k < 10 \<Longrightarrow> is_digit (''0123456789'' ! k)"
proof -
  assume "k < 10"
  then have "k = 0 \<or> k = 1 \<or> k = 2 \<or> k = 3 \<or> k = 4 \<or> k = 5 \<or> k = 6 \<or> k = 7 \<or> k = 8 \<or> k = 9"
    by arith
  then show ?thesis
    by (elim disjE) (simp_all add: is_digit_def)
qed

lemma read_decimal_snoc:
  "read_decimal (s @ [c]) = 10 * read_decimal s + (of_char c - 48)"
  by (simp add: read_decimal_def)

lemma read_decimal_decimal: "read_decimal (decimal n) = n"
proof (induction n rule: decimal.induct)
  case (1 n)
  show ?case
  proof (cases "n < 10")
    case True
    then show ?thesis
      by (subst decimal.simps) (simp add: read_decimal_def digit_char_value)
  next
    case False
    with 1 have "read_decimal (decimal (n div 10)) = n div 10" by simp
    with False show ?thesis
      by (subst decimal.simps) (simp add: read_decimal_snoc digit_char_value)
  qed
qed

lemma digits_decimal: "list_all is_digit (decimal n)"
proof (induction n rule: decimal.induct)
  case (1 n)
  show ?case
  proof (cases "n < 10")
    case True
    then show ?thesis
      by (subst decimal.simps) (simp add: digit_char_is_digit)
  next
    case False
    with 1 have "list_all is_digit (decimal (n div 10))" by simp
    with False show ?thesis
      by (subst decimal.simps) (simp add: digit_char_is_digit)
  qed
qed

lemma length_decimal_lt10: "n < 10 \<Longrightarrow> length (decimal n) = 1"
  by (subst decimal.simps) simp

lemma length_decimal_lt100: "10 \<le> n \<Longrightarrow> n < 100 \<Longrightarrow> length (decimal n) = 2"
  by (subst decimal.simps) (simp add: length_decimal_lt10)

lemma length_decimal_pos: "1 \<le> length (decimal n)"
  by (subst decimal.simps) simp

lemma length_decimal_ge10: "10 \<le> n \<Longrightarrow> 2 \<le> length (decimal n)"
  using length_decimal_pos [of "n div 10"] by (subst decimal.simps) simp

lemma length_decimal_ge100: "100 \<le> n \<Longrightarrow> 3 \<le> length (decimal n)"
proof -
  assume "100 \<le> n"
  then have "10 \<le> n div 10" by simp
  then have "2 \<le> length (decimal (n div 10))" by (rule length_decimal_ge10)
  with \<open>100 \<le> n\<close> show ?thesis by (subst decimal.simps) simp
qed

lemma read_decimal_zeros: "read_decimal (replicate m CHR ''0'' @ s) = read_decimal s"
proof -
  have "foldl (\<lambda>n c. 10 * n + (of_char c - 48)) 0 (replicate m CHR ''0'') = (0::nat)"
    by (induction m) simp_all
  then show ?thesis by (simp add: read_decimal_def)
qed

lemma fmt_02d_facts:
  "read_decimal (fmt_02d k) = k \<and> list_all is_digit (fmt_02d k) \<and>
   (k < 100 \<longrightarrow> length (fmt_02d k) = 2) \<and>
   (100 \<le> k \<longrightarrow> fmt_02d k = decimal k \<and> 3 \<le> length (fmt_02d k))"
proof (intro conjI impI)
  show "read_decimal (fmt_02d k) = k"
    by (simp add: fmt_02d_def read_decimal_zeros read_decimal_decimal)
  have "list_all is_digit (replicate (2 - length (decimal k)) CHR ''0'')"
    by (simp add: list_all_iff is_digit_def)
  then show "list_all is_digit (fmt_02d k)"
    by (simp add: fmt_02d_def digits_decimal)
  show "length (fmt_02d k) = 2" if "k < 100"
  proof (cases "k < 10")
    case True
    then show ?thesis by (simp add: fmt_02d_def length_decimal_lt10)
  next
    case False
    with that show ?thesis by (simp add: fmt_02d_def length_decimal_lt100)
  qed
  show "fmt_02d k = decimal k" if "100 \<le> k"
    using length_decimal_ge100 [OF that] by (simp add: fmt_02d_def)
  show "3 \<le> length (fmt_02d k)" if "100 \<le> k"
    using length_decimal_ge100 [OF that] by (simp add: fmt_02d_def)
qed

lemma image_ext_fix_protocol: "image_ext (fix_protocol u) = image_ext u"
  by (simp add: image_ext_def fix_protocol_def)

text \<open>
  Claim C9, as amended. Every downloaded image is written to
  \<open>images/main_{NN}{ext}\<close> under the output directory, where \<open>NN\<close> is the position of
  the URL in \<open>main_images\<close>, counted from 1, in decimal and filled with zeros to at
  least two digits: exactly two digits up to position 99, the plain number from 100 on.
  When every download succeeds the indices are consecutive from 01. \<open>ext\<close> is
  \<open>.png\<close> when the URL contains \<open>.png\<close> and \<open>.jpg\<close> otherwise.
\<close>

theorem download_file_names:
  assumes "d = path_join out ''images''" and "mkdir_images io d = Inr ()"
  shows "(\<exists>p'. download_images io p out = Inr p' \<and>
            local_images p' =
              map (\<lambda>(k, u). path_join d (''main_'' @ fmt_02d k @ image_ext u))
                (filter (\<lambda>(k, u). fetched io d k u) (List.enumerate 1 (main_images p))) \<and>
            ((\<forall>(k, u) \<in> set (List.enumerate 1 (main_images p)). fetched io d k u) \<longrightarrow>
               local_images p' =
                 map (\<lambda>(k, u). path_join d (''main_'' @ fmt_02d k @ image_ext u))
                   (List.enumerate 1 (main_images p)))) \<and>
         (\<forall>k. read_decimal (fmt_02d k) = k \<and> list_all is_digit (fmt_02d k) \<and>
              (k < 100 \<longrightarrow> length (fmt_02d k) = 2) \<and>
              (100 \<le> k \<longrightarrow> fmt_02d k = decimal k \<and> 3 \<le> length (fmt_02d k))) \<and>
         (\<forall>u. image_ext u = (if py_in ''.png'' u then ''.png'' else ''.jpg''))"
proof -
  let ?name = "\<lambda>(k, u). path_join d (''main_'' @ fmt_02d k @ image_ext u)"
  let ?ok = "\<lambda>(k, u). fetched io d k u"
  let ?all = "List.enumerate 1 (main_images p)"
  have same: "(\<lambda>(k, u). image_path d k (fix_protocol u)) = ?name"
    by (simp add: image_path_def image_ext_fix_protocol fun_eq_iff)
  note r = download_images_filter [of io out p, folded assms(1), OF assms(2), unfolded same]
  have A: "\<exists>p'. download_images io p out = Inr p' \<and>
      local_images p' = map ?name (filter ?ok ?all) \<and>
      ((\<forall>x \<in> set ?all. ?ok x) \<longrightarrow> local_images p' = map ?name ?all)"
  proof (intro exI conjI impI)
    show "download_images io p out = Inr (p\<lparr>local_images := map ?name (filter ?ok ?all)\<rparr>)"
      by (rule r)
    show "local_images (p\<lparr>local_images := map ?name (filter ?ok ?all)\<rparr>)
        = map ?name (filter ?ok ?all)"
      by simp
    assume "\<forall>x \<in> set ?all. ?ok x"
    then have "filter ?ok ?all = ?all" by (simp add: filter_True)
    then show "local_images (p\<lparr>local_images := map ?name (filter ?ok ?all)\<rparr>)
        = map ?name ?all"
      by simp
  qed
  have B: "\<forall>k. read_decimal (fmt_02d k) = k \<and> list_all is_digit (fmt_02d k) \<and>
     (k < 100 \<longrightarrow> length (fmt_02d k) = 2) \<and>
     (100 \<le> k \<longrightarrow> fmt_02d k = decimal k \<and> 3 \<le> length (fmt_02d k))"
    by (intro allI fmt_02d_facts)
  have C: "\<forall>u. image_ext u = (if py_in ''.png'' u then ''.png'' else ''.jpg'')"
    by (simp add: image_ext_def)
  show ?thesis
    by (rule conjI [OF A conjI [OF B C]])
qed

lemma three_images_enumerate:
  "List.enumerate 1 (main_images three_images_product) =
     [(1, ''//img.example/a.jpg''), (2, ''https://img.example/b.jpg''),
      (3, ''https://img.example/c.png'')]"
  by (simp add: three_images_product_def enumerate_simps numeral_2_eq_2 numeral_3_eq_3)

theorem download_file_names_witness:
  "''out/images'' = path_join ''out'' ''images'' \<and>
   mkdir_images always_ok_io ''out/images'' = Inr () \<and>
   list_all (\<lambda>(k, u). fetched always_ok_io ''out/images'' k u)
     (List.enumerate 1 (main_images three_images_product)) \<and>
   (\<exists>p'. download_images always_ok_io three_images_product ''out'' = Inr p' \<and>
      local_images p' =
        [''out/images/main_01.jpg'', ''out/images/main_02.jpg'', ''out/images/main_03.png''])"
proof -
  have d: "''out/images'' = path_join ''out'' ''images''"
    by (simp add: path_join_def)
  have m: "mkdir_images always_ok_io ''out/images'' = Inr ()"
    by (simp add: always_ok_io_def)
  have f: "\<forall>(k, u) \<in> set (List.enumerate 1 (main_images three_images_product)).
      fetched always_ok_io ''out/images'' k u"
    by (simp add: fetched_def always_ok_io_def)
  have names: "map (\<lambda>(k, u). path_join ''out/images'' (''main_'' @ fmt_02d k @ image_ext u))
      (List.enumerate 1 (main_images three_images_product)) =
      [''out/images/main_01.jpg'', ''out/images/main_02.jpg'', ''out/images/main_03.png'']"
    unfolding three_images_enumerate
    by (simp add: path_join_def fmt_02d_def decimal.simps image_ext_def)
  from download_file_names [OF d m, of three_images_product, THEN conjunct1] f
  have "\<exists>p'. download_images always_ok_io three_images_product ''out'' = Inr p' \<and>
      local_images p' =
        map (\<lambda>(k, u). path_join ''out/images'' (''main_'' @ fmt_02d k @ image_ext u))
          (List.enumerate 1 (main_images three_images_product))"
    by auto
  then have "\<exists>p'. download_images always_ok_io three_images_product ''out'' = Inr p' \<and>
      local_images p' =
        [''out/images/main_01.jpg'', ''out/images/main_02.jpg'', ''out/images/main_03.png'']"
    unfolding names .
  moreover from f have "list_all (\<lambda>(k, u). fetched always_ok_io ''out/images'' k u)
     (List.enumerate 1 (main_images three_images_product))"
    unfolding list_all_iff .
  ultimately show ?thesis using d m by (intro conjI)
qed

lemma hundred_images_all_fetched:
  "filter (\<lambda>(k, u). fetched always_ok_io d k u) xs = xs"
  by (rule filter_True) (simp add: fetched_def always_ok_io_def split_beta)

text \<open>
  Claim C9 as stated fails: the hundredth image of a batch is written to
  \<open>main_100.jpg\<close>, whose index has three digits.
\<close>

theorem two_digit_index_counterexample:
  "\<not> isl (download_images always_ok_io hundred_images_product ''out'') \<and>
   length (local_images (projr (download_images always_ok_io hundred_images_product ''out'')))
     = 100 \<and>
   local_images (projr (download_images always_ok_io hundred_images_product ''out'')) ! 99
     = ''out/images/main_100.jpg''"
proof -
  have m: "mkdir_images always_ok_io (path_join ''out'' ''images'') = Inr ()"
    by (simp add: always_ok_io_def)
  have mi: "main_images hundred_images_product = replicate 100 ''https://img.example/a.jpg''"
    by (simp add: hundred_images_product_def)
  have nm: "image_path (path_join ''out'' ''images'') 100 (fix_protocol ''https://img.example/a.jpg'')
      = ''out/images/main_100.jpg''"
    by (simp add: image_path_def fix_protocol_def path_join_def fmt_02d_def decimal.simps
        image_ext_def)
  have e: "List.enumerate (Suc 0) (replicate 100 ''https://img.example/a.jpg'') ! 99
      = (100, ''https://img.example/a.jpg'')"
    by (simp add: nth_enumerate_eq)
  show ?thesis
    unfolding download_images_filter [OF m] hundred_images_all_fetched mi
    by (simp add: e nm)
qed

subsection \<open>The factory\<close>

lemma create_world: "snd (create scrapers plat kwargs w) = w"
  by (simp add: create_def TaobaoScraper_init_def Let_def
      split: sum.split option.split scraper_class.split)

lemma create_scraper_idle:
  "fst (create scrapers plat kwargs w) = Inr s \<Longrightarrow>
     browser_context s = None \<and> playwright_handle s = None"
  by (auto simp: create_def TaobaoScraper_init_def Let_def
      split: sum.splits option.splits scraper_class.splits if_splits)

lemma ensure_browser_launches:
  "browser_context s = None \<Longrightarrow> start_playwright_r br = Inr () \<Longrightarrow>
   mkdir_profile_r br = Inr () \<Longrightarrow> launch_r br = Inr () \<Longrightarrow>
   browsers_launched (snd (snd (ensure_browser br s w))) = browsers_launched w + 1"
  by (simp add: ensure_browser_def)

text \<open>
  Claim C6, as amended. \<open>create\<close> raises \<open>ValueError\<close> and leaves the machine as it
  is for every argument whose lower-case form does not start with \<open>http\<close> and is no
  key of the registry, and for every argument whose lower-case form starts with
  \<open>http\<close> and contains neither \<open>taobao.com\<close> nor \<open>tmall.com\<close> anywhere. Construction
  launches no browser: a scraper that \<open>create\<close> returns has no context, the machine
  is unchanged, and it is \<open>_ensure_browser\<close> that launches one.
\<close>

theorem create_unknown_platform:
  assumes "q = py_lower plat"
    and "if prefix ''http'' q then \<not> py_in ''taobao.com'' q \<and> \<not> py_in ''tmall.com'' q
         else map_of scrapers q = None"
  shows "create scrapers plat kwargs w =
           (Inl (if prefix ''http'' q then Cannot_detect_platform q
                 else Unsupported_platform q (dict_keys scrapers)), w) \<and>
         (\<forall>plat' s. fst (create scrapers plat' kwargs w) = Inr s \<longrightarrow>
            snd (create scrapers plat' kwargs w) = w \<and>
            browser_context s = None \<and> playwright_handle s = None) \<and>
         (\<forall>br s. browser_context s = None \<and> start_playwright_r br = Inr () \<and>
            mkdir_profile_r br = Inr () \<and> launch_r br = Inr () \<longrightarrow>
            browsers_launched (snd (snd (ensure_browser br s w))) = browsers_launched w + 1)"
proof -
  have A: "create scrapers plat kwargs w =
           (Inl (if prefix ''http'' q then Cannot_detect_platform q
                 else Unsupported_platform q (dict_keys scrapers)), w)"
    using assms by (simp add: create_def Let_def split: if_splits)
  have B: "\<forall>plat' s. fst (create scrapers plat' kwargs w) = Inr s \<longrightarrow>
            snd (create scrapers plat' kwargs w) = w \<and>
            browser_context s = None \<and> playwright_handle s = None"
    using create_world create_scraper_idle by blast
  have C: "\<forall>br s. browser_context s = None \<and> start_playwright_r br = Inr () \<and>
            mkdir_profile_r br = Inr () \<and> launch_r br = Inr () \<longrightarrow>
            browsers_launched (snd (snd (ensure_browser br s w))) = browsers_launched w + 1"
    using ensure_browser_launches by blast
  show ?thesis by (rule conjI [OF A conjI [OF B C]])
qed

lemma lower_unknown_store: "''unknown-store'' = py_lower ''unknown-store''"
  by code_simp

lemma lower_other_shop: "''https://shop.example.org/item/1'' = py_lower ''https://Shop.Example.org/item/1''"
  by code_simp

theorem create_unknown_platform_witness:
  "create registered_scrapers ''unknown-store'' no_kwargs fresh_world =
     (Inl (Unsupported_platform ''unknown-store'' [''taobao'', ''tmall'']), fresh_world)"
proof -
  have r: "registered_scrapers = [(''taobao'', TaobaoScraper_class), (''tmall'', TaobaoScraper_class)]"
    by code_simp
  have h: "if prefix ''http'' ''unknown-store''
      then \<not> py_in ''taobao.com'' ''unknown-store'' \<and> \<not> py_in ''tmall.com'' ''unknown-store''
      else map_of registered_scrapers ''unknown-store'' = None"
    by (simp add: r)
  from create_unknown_platform [OF lower_unknown_store h, of no_kwargs fresh_world, THEN conjunct1]
  show ?thesis by (simp add: r dict_keys_def)
qed

text \<open>
  Claim C6 as stated fails for a URL that names a known platform outside its domain:
  the network location is \<open>example.com\<close>, and \<open>create\<close> returns a scraper.
\<close>

theorem unknown_domain_counterexample:
  "url_netloc ''https://example.com/?ref=taobao.com'' = ''example.com'' \<and>
   \<not> py_in ''taobao.com'' ''example.com'' \<and> \<not> py_in ''tmall.com'' ''example.com'' \<and>
   \<not> isl (fst (create registered_scrapers ''https://example.com/?ref=taobao.com''
                  no_kwargs fresh_world))"
proof -
  have r: "registered_scrapers = [(''taobao'', TaobaoScraper_class), (''tmall'', TaobaoScraper_class)]"
    by code_simp
  have l: "py_lower ''https://example.com/?ref=taobao.com'' = ''https://example.com/?ref=taobao.com''"
    by code_simp
  have n: "url_netloc ''https://example.com/?ref=taobao.com'' = ''example.com''"
    by code_simp
  have c: "\<not> isl (fst (create registered_scrapers ''https://example.com/?ref=taobao.com''
                  no_kwargs fresh_world))"
    by (simp add: create_def l r TaobaoScraper_init_def)
  from n c show ?thesis by simp
qed

subsection \<open>The image resolver\<close>

lemma set_first_by_key: "f ` set (first_by_key f xs) = f ` set xs"
proof (induction xs)
  case Nil
  show ?case by simp
next
  case (Cons x xs)
  have "f ` set (filter (\<lambda>y. f y \<noteq> f x) (first_by_key f xs))
      = f ` set (first_by_key f xs) - {f x}"
    by auto
  with Cons.IH show ?case by auto
qed

lemma first_by_key_subset: "set (first_by_key f xs) \<subseteq> set xs"
  by (induction xs) auto

lemma distinct_first_by_key: "distinct (map f (first_by_key f xs))"
proof (induction xs)
  case Nil
  show ?case by simp
next
  case (Cons x xs)
  have "distinct (map f (filter (\<lambda>y. f y \<noteq> f x) (first_by_key f xs)))"
    using Cons.IH by (simp add: distinct_map_filter)
  then show ?case by auto
qed

lemma subseq_first_by_key: "subseq (first_by_key f xs) xs"
proof (induction xs)
  case Nil
  show ?case by simp
next
  case (Cons x xs)
  have "subseq (filter (\<lambda>y. f y \<noteq> f x) (first_by_key f xs)) (first_by_key f xs)"
    by simp
  from this Cons.IH have "subseq (filter (\<lambda>y. f y \<noteq> f x) (first_by_key f xs)) xs"
    by (rule subseq_order.trans)
  then show ?case by simp
qed

lemma first_by_key_is_first:
  "k \<in> set (first_by_key f xs) \<Longrightarrow> find (\<lambda>c. f c = f k) xs = Some k"
proof (induction xs)
  case Nil
  then show ?case by simp
next
  case (Cons x xs)
  show ?case
  proof (cases "k = x")
    case True
    then show ?thesis by simp
  next
    case False
    with Cons.prems have k: "k \<in> set (first_by_key f xs)" and ne: "f k \<noteq> f x"
      by auto
    from k have "find (\<lambda>c. f c = f k) xs = Some k" by (rule Cons.IH)
    with ne show ?thesis by auto
  qed
qed

lemma clean_loop_first_by_key:
  "clean_loop sid us seen acc =
     acc @ map high_res
       (filter (\<lambda>u. search_img_id u \<notin> Some ` seen)
          (first_by_key search_img_id (filter (identified sid) us)))"
proof (induction us arbitrary: seen acc)
  case Nil
  show ?case by simp
next
  case (Cons u us)
  show ?case
  proof (cases "identified sid u")
    case False
    then show ?thesis
      by (auto simp: identified_def Cons.IH)
  next
    case True
    then obtain i where i: "search_img_id u = Some i" and ok: "\<not> seller_rejects sid u"
      by (auto simp: identified_def)
    let ?rest = "first_by_key search_img_id (filter (identified sid) us)"
    show ?thesis
    proof (cases "i \<in> seen")
      case True
      have "filter (\<lambda>c. search_img_id c \<notin> Some ` seen)
              (filter (\<lambda>y. search_img_id y \<noteq> Some i) ?rest)
          = filter (\<lambda>c. search_img_id c \<notin> Some ` seen) ?rest"
        using True by (auto simp: filter_filter intro!: filter_cong)
      with True i ok \<open>identified sid u\<close> show ?thesis
        by (simp add: Cons.IH)
    next
      case False
      have "filter (\<lambda>c. search_img_id c \<notin> Some ` insert i seen) ?rest
          = filter (\<lambda>c. search_img_id c \<notin> Some ` seen)
              (filter (\<lambda>y. search_img_id y \<noteq> Some i) ?rest)"
        by (auto simp: filter_filter intro!: filter_cong)
      with False i ok \<open>identified sid u\<close> show ?thesis
        by (simp add: Cons.IH image_iff)
    qed
  qed
qed

lemma resolve_images_first_by_key:
  "resolve_images sid us =
     map high_res (first_by_key search_img_id (filter (identified sid) us))"
  by (simp add: resolve_images_def clean_loop_first_by_key)

lemma prefix_takeWhile:
  "list_all P p \<Longrightarrow> prefix p s = prefix p (takeWhile P s)"
proof (induction p arbitrary: s)
  case Nil
  show ?case by simp
next
  case (Cons a p)
  then show ?case by (cases s) auto
qed

lemma takeWhile_after_prefix:
  assumes "list_all P p" and "prefix p s"
  shows "takeWhile P (drop (length p) s) = drop (length p) (takeWhile P s)"
proof -
  from assms(2) obtain t where s: "s = p @ t" by (auto simp: prefix_def)
  from assms(1) have "takeWhile P (p @ t) = p @ takeWhile P t"
    by (intro takeWhile_append2) (simp add: list_all_iff)
  then show ?thesis by (simp add: s)
qed

lemma match_img_id_run:
  "match_img_id s =
     (if prefix ''O1CN01'' (takeWhile is_alnum_ascii s) \<and>
         drop 6 (takeWhile is_alnum_ascii s) \<noteq> []
      then Some (takeWhile is_alnum_ascii s) else None)"
proof -
  have a: "list_all is_alnum_ascii ''O1CN01''"
    by (simp add: is_alnum_ascii_def)
  have p: "prefix ''O1CN01'' s = prefix ''O1CN01'' (takeWhile is_alnum_ascii s)"
    by (rule prefix_takeWhile [OF a])
  show ?thesis
  proof (cases "prefix ''O1CN01'' s")
    case False
    with p show ?thesis by (simp add: match_img_id_def)
  next
    case True
    have len: "length ''O1CN01'' = 6" by simp
    have d: "takeWhile is_alnum_ascii (drop 6 s) = drop 6 (takeWhile is_alnum_ascii s)"
      using takeWhile_after_prefix [OF a True] unfolding len .
    from True p obtain r where r: "takeWhile is_alnum_ascii s = ''O1CN01'' @ r"
      by (auto simp: prefix_def)
    then have "''O1CN01'' @ drop 6 (takeWhile is_alnum_ascii s) = takeWhile is_alnum_ascii s"
      by simp
    with True p d show ?thesis
      by (simp only: match_img_id_def)
  qed
qed

lemma match_img_id_cong:
  "takeWhile is_alnum_ascii s = takeWhile is_alnum_ascii s' \<Longrightarrow>
     match_img_id s = match_img_id s'"
  by (simp only: match_img_id_run)

lemma dot_not_alnum: "\<not> is_alnum_ascii CHR ''.''"
  by (simp add: is_alnum_ascii_def)

lemma takeWhile_re_sub:
  assumes "\<And>t rest. m t = Some rest \<Longrightarrow> prefix ''.'' t" and "prefix ''.'' repl"
  shows "takeWhile is_alnum_ascii (re_sub m repl s) = takeWhile is_alnum_ascii s"
proof (induction s)
  case Nil
  show ?case by simp
next
  case (Cons c cs)
  show ?case
  proof (cases "m (c # cs)")
    case None
    with Cons.IH show ?thesis by simp
  next
    case (Some rest)
    from assms(1) [OF Some] have "c = CHR ''.''" by simp
    moreover from assms(2) obtain r where "repl = CHR ''.'' # r"
      by (auto simp: prefix_def)
    ultimately show ?thesis using Some by (simp add: dot_not_alnum)
  qed
qed

lemma search_re_sub:
  assumes "\<And>t rest. m t = Some rest \<Longrightarrow> prefix ''.'' t" and "prefix ''.'' repl"
    and "\<And>t rest. m t = Some rest \<Longrightarrow> search_img_id (repl @ rest) = None"
  shows "search_img_id (re_sub m repl s) = search_img_id s \<or>
         search_img_id (re_sub m repl s) = None"
proof (induction s)
  case Nil
  show ?case by simp
next
  case (Cons c cs)
  show ?case
  proof (cases "m (c # cs)")
    case (Some rest)
    with assms(3) [OF Some] show ?thesis by simp
  next
    case None
    have "takeWhile is_alnum_ascii (c # re_sub m repl cs) = takeWhile is_alnum_ascii (c # cs)"
      using takeWhile_re_sub [of m repl cs, OF assms(1,2)] by simp
    then have "match_img_id (c # re_sub m repl cs) = match_img_id (c # cs)"
      by (rule match_img_id_cong)
    with None Cons.IH show ?thesis
      by (auto split: option.split)
  qed
qed

lemma search_plain_suffixes:
  "search_img_id ''.jpg_.webp'' = None"
  "search_img_id (''.jpg_.webp'' @ [CHR 0x0A]) = None"
  "search_img_id ''.jpg'' = None"
  "search_img_id (''.jpg'' @ [CHR 0x0A]) = None"
  by (simp_all add: match_img_id_def)

lemma match_quality_webp_shape:
  "match_quality_webp t = Some rest \<Longrightarrow> prefix ''.'' t \<and> at_dollar rest"
  by (auto simp: match_quality_webp_def Let_def prefix_def split: if_splits)

lemma match_quality_jpg_shape:
  "match_quality_jpg t = Some rest \<Longrightarrow> prefix ''.'' t \<and> at_dollar rest"
  by (auto simp: match_quality_jpg_def Let_def prefix_def split: if_splits)

lemma match_size_webp_shape:
  "match_size_webp t = Some rest \<Longrightarrow> prefix ''.'' t \<and> at_dollar rest"
  by (auto simp: match_size_webp_def Let_def prefix_def split: if_splits)

lemma search_quality_webp:
  "search_img_id (re_sub match_quality_webp ''.jpg_.webp'' s) = search_img_id s \<or>
   search_img_id (re_sub match_quality_webp ''.jpg_.webp'' s) = None"
proof (rule search_re_sub)
  fix t rest assume m: "match_quality_webp t = Some rest"
  then show "prefix ''.'' t" by (simp add: match_quality_webp_shape)
  from m have "at_dollar rest" by (simp add: match_quality_webp_shape)
  then show "search_img_id (''.jpg_.webp'' @ rest) = None"
    using search_plain_suffixes by (auto simp: at_dollar_def)
qed simp

lemma search_quality_jpg:
  "search_img_id (re_sub match_quality_jpg ''.jpg'' s) = search_img_id s \<or>
   search_img_id (re_sub match_quality_jpg ''.jpg'' s) = None"
proof (rule search_re_sub)
  fix t rest assume m: "match_quality_jpg t = Some rest"
  then show "prefix ''.'' t" by (simp add: match_quality_jpg_shape)
  from m have "at_dollar rest" by (simp add: match_quality_jpg_shape)
  then show "search_img_id (''.jpg'' @ rest) = None"
    using search_plain_suffixes by (auto simp: at_dollar_def)
qed simp

lemma search_size_webp:
  "search_img_id (re_sub match_size_webp ''.jpg_.webp'' s) = search_img_id s \<or>
   search_img_id (re_sub match_size_webp ''.jpg_.webp'' s) = None"
proof (rule search_re_sub)
  fix t rest assume m: "match_size_webp t = Some rest"
  then show "prefix ''.'' t" by (simp add: match_size_webp_shape)
  from m have "at_dollar rest" by (simp add: match_size_webp_shape)
  then show "search_img_id (''.jpg_.webp'' @ rest) = None"
    using search_plain_suffixes by (auto simp: at_dollar_def)
qed simp

text \<open>A rewritten URL keeps the identifier of its source or has none.\<close>

lemma search_high_res:
  "search_img_id (high_res u) = search_img_id u \<or> search_img_id (high_res u) = None"
  unfolding high_res_def
  using search_quality_webp [of u]
    search_quality_jpg [of "re_sub match_quality_webp ''.jpg_.webp'' u"]
    search_size_webp [of "re_sub match_quality_jpg ''.jpg''
                            (re_sub match_quality_webp ''.jpg_.webp'' u)"]
  by metis

lemma set_map_filter_keep:
  assumes "\<And>x. g (h x) = g x \<or> g (h x) = None"
  shows "set (List.map_filter g (map h xs)) \<subseteq> {y. Some y \<in> g ` set xs}"
proof (induction xs)
  case Nil
  show ?case by (simp add: map_filter_simps)
next
  case (Cons x xs)
  from assms [of x] Cons.IH show ?case
    by (auto simp: map_filter_simps split: option.split)
qed

lemma distinct_map_filter_keep:
  assumes "\<And>x. g (h x) = g x \<or> g (h x) = None" and "distinct (map g xs)"
  shows "distinct (List.map_filter g (map h xs))"
  using assms(2)
proof (induction xs)
  case Nil
  show ?case by (simp add: map_filter_simps)
next
  case (Cons x xs)
  then have d: "distinct (List.map_filter g (map h xs))" and nx: "g x \<notin> g ` set xs"
    by auto
  show ?case
  proof (cases "g (h x)")
    case None
    with d show ?thesis by (simp add: map_filter_simps)
  next
    case (Some y)
    with assms(1) [of x] have "g x = Some y" by auto
    with nx have "Some y \<notin> g ` set xs" by simp
    with set_map_filter_keep [of g h xs, OF assms(1)]
    have "y \<notin> set (List.map_filter g (map h xs))" by auto
    with d Some show ?thesis by (simp add: map_filter_simps)
  qed
qed

text \<open>
  Claim C2. The resolver's output is the rewrite of the candidates that pass the seller
  filter and carry an identifier, one per identifier: the kept candidates have pairwise
  different identifiers, stand in the order of the candidate list, and each is the first
  candidate of its identifier; every identifier of such a candidate is kept. The
  identifiers found in the output URLs are pairwise different too.
\<close>

theorem resolver_deduplicates:
  assumes "kept = first_by_key search_img_id (filter (identified sid) cands)"
  shows "resolve_images sid cands = map high_res kept \<and>
         distinct (map search_img_id kept) \<and>
         subseq kept cands \<and>
         (\<forall>k \<in> set kept.
            find (\<lambda>c. search_img_id c = search_img_id k) (filter (identified sid) cands) = Some k) \<and>
         search_img_id ` set kept = search_img_id ` set (filter (identified sid) cands) \<and>
         distinct (List.map_filter search_img_id (resolve_images sid cands))"
proof -
  have r: "resolve_images sid cands = map high_res kept"
    by (simp add: assms resolve_images_first_by_key)
  have d: "distinct (map search_img_id kept)"
    unfolding assms by (rule distinct_first_by_key)
  have "subseq kept (filter (identified sid) cands)"
    unfolding assms by (rule subseq_first_by_key)
  moreover have "subseq (filter (identified sid) cands) cands" by simp
  ultimately have s: "subseq kept cands" by (rule subseq_order.trans)
  have f: "\<forall>k \<in> set kept.
      find (\<lambda>c. search_img_id c = search_img_id k) (filter (identified sid) cands) = Some k"
    unfolding assms by (intro ballI first_by_key_is_first)
  have i: "search_img_id ` set kept = search_img_id ` set (filter (identified sid) cands)"
    unfolding assms by (rule set_first_by_key)
  have o: "distinct (List.map_filter search_img_id (resolve_images sid cands))"
    unfolding r using search_high_res d by (rule distinct_map_filter_keep)
  from r d s f i o show ?thesis by (intro conjI)
qed

lemma sample_resolved:
  "resolve_images (Some ''2211714949103'') sample_candidates =
     [''//img.alicdn.com/imgextra/i1/2211714949103/O1CN01aaa1_!!2211714949103.jpg_.webp'',
      ''//img.alicdn.com/imgextra/i2/2211714949103/O1CN01bbb2_!!2211714949103.jpg'']"
  by code_simp

lemma sample_resolved_ids:
  "List.map_filter search_img_id
     [''//img.alicdn.com/imgextra/i1/2211714949103/O1CN01aaa1_!!2211714949103.jpg_.webp'',
      ''//img.alicdn.com/imgextra/i2/2211714949103/O1CN01bbb2_!!2211714949103.jpg'']
   = [''O1CN01aaa1'', ''O1CN01bbb2'']"
  by code_simp

theorem resolver_deduplicates_witness:
  "resolve_images (Some ''2211714949103'') sample_candidates =
     [''//img.alicdn.com/imgextra/i1/2211714949103/O1CN01aaa1_!!2211714949103.jpg_.webp'',
      ''//img.alicdn.com/imgextra/i2/2211714949103/O1CN01bbb2_!!2211714949103.jpg''] \<and>
   List.map_filter search_img_id (resolve_images (Some ''2211714949103'') sample_candidates)
     = [''O1CN01aaa1'', ''O1CN01bbb2''] \<and>
   distinct (List.map_filter search_img_id
     (resolve_images (Some ''2211714949103'') sample_candidates))"
proof -
  from resolver_deduplicates [OF refl, of "Some ''2211714949103''" sample_candidates]
  have "distinct (List.map_filter search_img_id
     (resolve_images (Some ''2211714949103'') sample_candidates))"
    by (elim conjE)
  moreover have "List.map_filter search_img_id
      (resolve_images (Some ''2211714949103'') sample_candidates) = [''O1CN01aaa1'', ''O1CN01bbb2'']"
    unfolding sample_resolved by (rule sample_resolved_ids)
  ultimately show ?thesis using sample_resolved by (intro conjI)
qed

text \<open>
  Claim C8, as amended. When the vote finds no seller identity, no candidate is rejected
  by the identity filter and all candidates reach the deduplication step. That step
  keeps, rewritten, the first candidate of each identifier and drops the candidates in
  which no identifier is found: every candidate that carries an identifier has a
  candidate of the same identifier rewritten in the output, and the output is no longer
  than the list of the candidates that carry one.
\<close>

theorem no_seller_no_filter:
  assumes "extract_seller_id pg = None" and "collect_candidates pg api_images = Inr cands"
  shows "extract_main_images pg api_images = Inr (resolve_images None cands) \<and>
         filter (\<lambda>u. \<not> seller_rejects (extract_seller_id pg) u) cands = cands \<and>
         resolve_images None cands =
           map high_res
             (first_by_key search_img_id (filter (\<lambda>u. search_img_id u \<noteq> None) cands)) \<and>
         (\<forall>u \<in> set cands. search_img_id u \<noteq> None \<longrightarrow>
            (\<exists>c \<in> set cands. search_img_id c = search_img_id u \<and>
               high_res c \<in> set (resolve_images None cands))) \<and>
         length (resolve_images None cands)
           \<le> length (filter (\<lambda>u. search_img_id u \<noteq> None) cands)"
proof -
  let ?with_id = "filter (\<lambda>u. search_img_id u \<noteq> None) cands"
  let ?kept = "first_by_key search_img_id ?with_id"
  have e: "extract_main_images pg api_images = Inr (resolve_images None cands)"
    using assms by (simp add: extract_main_images_def bind_res_def)
  have n: "filter (\<lambda>u. \<not> seller_rejects (extract_seller_id pg) u) cands = cands"
    using assms(1) by (simp add: seller_rejects_def)
  have "identified None = (\<lambda>u. search_img_id u \<noteq> None)"
    by (simp add: identified_def seller_rejects_def fun_eq_iff)
  then have r: "resolve_images None cands = map high_res ?kept"
    by (simp add: resolve_images_first_by_key)
  have a: "\<forall>u \<in> set cands. search_img_id u \<noteq> None \<longrightarrow>
      (\<exists>c \<in> set cands. search_img_id c = search_img_id u \<and>
         high_res c \<in> set (resolve_images None cands))"
  proof (intro ballI impI)
    fix u assume "u \<in> set cands" and "search_img_id u \<noteq> None"
    then have "search_img_id u \<in> search_img_id ` set ?with_id" by simp
    then have "search_img_id u \<in> search_img_id ` set ?kept"
      by (simp only: set_first_by_key)
    then obtain c where c: "c \<in> set ?kept" "search_img_id c = search_img_id u" by auto
    from c(1) first_by_key_subset [of search_img_id ?with_id] have "c \<in> set cands" by auto
    moreover from c(1) have "high_res c \<in> set (resolve_images None cands)"
      by (simp add: r)
    ultimately show "\<exists>c \<in> set cands. search_img_id c = search_img_id u \<and>
         high_res c \<in> set (resolve_images None cands)"
      using c(2) by blast
  qed
  have "length ?kept \<le> length ?with_id"
    using subseq_first_by_key [of search_img_id ?with_id] by (rule list_emb_length)
  then have l: "length (resolve_images None cands) \<le> length ?with_id"
    by (simp add: r)
  from e n r a l show ?thesis by (intro conjI)
qed

lemma no_seller_page_vote: "extract_seller_id no_seller_page = None"
  by code_simp

lemma no_seller_page_candidates:
  "collect_candidates no_seller_page [] = Inr sample_candidates"
  by (simp add: collect_candidates_def no_seller_page_def blank_page_def bind_res_def
      sample_candidates_def)

lemma sample_resolved_unfiltered:
  "resolve_images None sample_candidates =
     [''//img.alicdn.com/imgextra/i1/2211714949103/O1CN01aaa1_!!2211714949103.jpg_.webp'',
      ''//img.alicdn.com/imgextra/i4/6000000001234/O1CN01ccc3_!!6000000001234-2-tps.png'',
      ''//img.alicdn.com/imgextra/i2/2211714949103/O1CN01bbb2_!!2211714949103.jpg'']"
  by code_simp

theorem no_seller_no_filter_witness:
  "extract_seller_id no_seller_page = None \<and>
   collect_candidates no_seller_page [] = Inr sample_candidates \<and>
   extract_main_images no_seller_page [] =
     Inr [''//img.alicdn.com/imgextra/i1/2211714949103/O1CN01aaa1_!!2211714949103.jpg_.webp'',
          ''//img.alicdn.com/imgextra/i4/6000000001234/O1CN01ccc3_!!6000000001234-2-tps.png'',
          ''//img.alicdn.com/imgextra/i2/2211714949103/O1CN01bbb2_!!2211714949103.jpg'']"
proof -
  from no_seller_no_filter [OF no_seller_page_vote no_seller_page_candidates]
  have "extract_main_images no_seller_page [] = Inr (resolve_images None sample_candidates)"
    by (elim conjE)
  then have "extract_main_images no_seller_page [] =
     Inr [''//img.alicdn.com/imgextra/i1/2211714949103/O1CN01aaa1_!!2211714949103.jpg_.webp'',
          ''//img.alicdn.com/imgextra/i4/6000000001234/O1CN01ccc3_!!6000000001234-2-tps.png'',
          ''//img.alicdn.com/imgextra/i2/2211714949103/O1CN01bbb2_!!2211714949103.jpg'']"
    unfolding sample_resolved_unfiltered .
  with no_seller_page_vote no_seller_page_candidates show ?thesis by (intro conjI)
qed

text \<open>
  Claim C8 as stated fails for a candidate without identifier: with no seller identity
  and the banner as only candidate, the output is empty.
\<close>

theorem no_identifier_counterexample:
  "extract_seller_id banner_page = None \<and>
   collect_candidates banner_page [] = Inr [''//img.alicdn.com/tps/banner.png''] \<and>
   extract_main_images banner_page [] = Inr []"
  by code_simp

subsection \<open>The high-resolution rewrite\<close>

lemma re_sub_noop: "\<not> match_anywhere m s \<Longrightarrow> re_sub m repl s = s"
  by (induction s) auto

lemma re_sub_length_le:
  assumes "\<And>t rest. m t = Some rest \<Longrightarrow> length repl + length rest < length t"
  shows "length (re_sub m repl s) \<le> length s"
proof (induction s)
  case Nil
  show ?case by simp
next
  case (Cons c cs)
  show ?case
  proof (cases "m (c # cs)")
    case None
    with Cons.IH show ?thesis by simp
  next
    case (Some rest)
    with assms [OF Some] show ?thesis by simp
  qed
qed

lemma re_sub_shorter:
  assumes "\<And>t rest. m t = Some rest \<Longrightarrow> length repl + length rest < length t"
    and "match_anywhere m s"
  shows "length (re_sub m repl s) < length s"
  using assms(2)
proof (induction s)
  case Nil
  then show ?case by simp
next
  case (Cons c cs)
  show ?case
  proof (cases "m (c # cs)")
    case None
    with Cons show ?thesis by simp
  next
    case (Some rest)
    with assms(1) [OF Some] show ?thesis by simp
  qed
qed

lemma match_quality_webp_shrinks:
  assumes "match_quality_webp t = Some rest"
  shows "length ''.jpg_.webp'' + length rest < length t"
proof -
  let ?r = "dropWhile is_digit (drop 6 t)"
  from assms have p: "prefix ''.jpg_q'' t" and q: "prefix ''.jpg_.webp'' ?r"
    and rest: "rest = drop 10 ?r"
    by (auto simp: match_quality_webp_def Let_def split: if_splits)
  from p have "6 \<le> length t" using prefix_length_le by fastforce
  moreover from q have "10 \<le> length ?r" using prefix_length_le by fastforce
  moreover have "length ?r \<le> length (drop 6 t)" by (rule length_dropWhile_le)
  ultimately show ?thesis by (simp add: rest)
qed

lemma match_quality_jpg_shrinks:
  assumes "match_quality_jpg t = Some rest"
  shows "length ''.jpg'' + length rest < length t"
proof -
  let ?r = "dropWhile is_digit (drop 6 t)"
  from assms have p: "prefix ''.jpg_q'' t" and q: "prefix ''.jpg'' ?r"
    and rest: "rest = drop 4 ?r"
    by (auto simp: match_quality_jpg_def Let_def split: if_splits)
  from p have "6 \<le> length t" using prefix_length_le by fastforce
  moreover from q have "4 \<le> length ?r" using prefix_length_le by fastforce
  moreover have "length ?r \<le> length (drop 6 t)" by (rule length_dropWhile_le)
  ultimately show ?thesis by (simp add: rest)
qed

lemma match_size_webp_shrinks:
  assumes "match_size_webp t = Some rest"
  shows "length ''.jpg_.webp'' + length rest < length t"
proof -
  let ?r1 = "dropWhile is_digit (drop 5 t)"
  let ?r2 = "dropWhile (\<lambda>c. c \<noteq> CHR ''.'') (dropWhile is_digit (drop 1 ?r1))"
  from assms have p: "prefix ''.jpg_'' t" and x: "prefix ''x'' ?r1"
    and q: "prefix ''.jpg_.webp'' ?r2" and rest: "rest = drop 10 ?r2"
    by (auto simp: match_size_webp_def Let_def split: if_splits)
  from p have "5 \<le> length t" using prefix_length_le by fastforce
  moreover from q have "10 \<le> length ?r2" using prefix_length_le by fastforce
  moreover have "length ?r2 \<le> length (dropWhile is_digit (drop 1 ?r1))"
    by (rule length_dropWhile_le)
  moreover have "length (dropWhile is_digit (drop 1 ?r1)) \<le> length (drop 1 ?r1)"
    by (rule length_dropWhile_le)
  moreover have "length ?r1 \<le> length (drop 5 t)" by (rule length_dropWhile_le)
  ultimately show ?thesis by (simp add: rest)
qed

lemma high_res_resolved: "resolved u \<Longrightarrow> high_res u = u"
  by (simp add: resolved_def high_res_def re_sub_noop)

lemma high_res_length_le: "length (high_res u) \<le> length u"
proof -
  let ?a = "re_sub match_quality_webp ''.jpg_.webp'' u"
  let ?b = "re_sub match_quality_jpg ''.jpg'' ?a"
  have "length ?a \<le> length u"
    by (rule re_sub_length_le) (rule match_quality_webp_shrinks)
  moreover have "length ?b \<le> length ?a"
    by (rule re_sub_length_le) (rule match_quality_jpg_shrinks)
  moreover have "length (re_sub match_size_webp ''.jpg_.webp'' ?b) \<le> length ?b"
    by (rule re_sub_length_le) (rule match_size_webp_shrinks)
  ultimately show ?thesis by (simp add: high_res_def)
qed

lemma high_res_shorter:
  assumes "\<not> resolved u"
  shows "length (high_res u) < length u"
proof -
  let ?a = "re_sub match_quality_webp ''.jpg_.webp'' u"
  let ?b = "re_sub match_quality_jpg ''.jpg'' ?a"
  let ?c = "re_sub match_size_webp ''.jpg_.webp'' ?b"
  have a: "length ?a \<le> length u"
    by (rule re_sub_length_le) (rule match_quality_webp_shrinks)
  have b: "length ?b \<le> length ?a"
    by (rule re_sub_length_le) (rule match_quality_jpg_shrinks)
  have c: "length ?c \<le> length ?b"
    by (rule re_sub_length_le) (rule match_size_webp_shrinks)
  consider "match_anywhere match_quality_webp u"
    | "\<not> match_anywhere match_quality_webp u" "match_anywhere match_quality_jpg u"
    | "\<not> match_anywhere match_quality_webp u" "\<not> match_anywhere match_quality_jpg u"
      "match_anywhere match_size_webp u"
    using assms by (auto simp: resolved_def)
  then have "length ?c < length u"
  proof cases
    case 1
    have "length ?a < length u"
      using match_quality_webp_shrinks 1 by (rule re_sub_shorter)
    with b c show ?thesis by simp
  next
    case 2
    then have e: "?a = u" by (simp add: re_sub_noop)
    have "length (re_sub match_quality_jpg ''.jpg'' u) < length u"
      using match_quality_jpg_shrinks 2(2) by (rule re_sub_shorter)
    with c e show ?thesis by simp
  next
    case 3
    then have e: "?b = u" by (simp add: re_sub_noop)
    have "length (re_sub match_size_webp ''.jpg_.webp'' u) < length u"
      using match_size_webp_shrinks 3(3) by (rule re_sub_shorter)
    with e show ?thesis by simp
  qed
  then show ?thesis by (simp add: high_res_def)
qed

text \<open>
  Claim C4, as amended. The rewrite leaves every resolved URL (one that none of the three
  suffix patterns matches) as it is and makes every other URL strictly shorter. Applied
  to its own output it yields the same string exactly when that output is resolved.
\<close>

theorem high_res_fixed_points:
  "(resolved u \<longrightarrow> high_res u = u) \<and>
   (\<not> resolved u \<longrightarrow> length (high_res u) < length u) \<and>
   (high_res (high_res u) = high_res u) = resolved (high_res u)"
proof (intro conjI impI)
  show "high_res u = u" if "resolved u"
    using that by (rule high_res_resolved)
  show "length (high_res u) < length u" if "\<not> resolved u"
    using that by (rule high_res_shorter)
  show "(high_res (high_res u) = high_res u) = resolved (high_res u)"
  proof
    assume e: "high_res (high_res u) = high_res u"
    show "resolved (high_res u)"
    proof (rule ccontr)
      assume "\<not> resolved (high_res u)"
      then have "length (high_res (high_res u)) < length (high_res u)"
        by (rule high_res_shorter)
      with e show False by simp
    qed
  next
    assume "resolved (high_res u)"
    then show "high_res (high_res u) = high_res u" by (rule high_res_resolved)
  qed
qed

lemma single_suffix_once:
  "high_res ''//img.alicdn.com/i1/O1CN01aaa1_!!2211714949103.jpg_q50.jpg_.webp''
     = ''//img.alicdn.com/i1/O1CN01aaa1_!!2211714949103.jpg_.webp''"
  by code_simp

lemma single_suffix_resolved:
  "resolved ''//img.alicdn.com/i1/O1CN01aaa1_!!2211714949103.jpg_.webp''"
  by code_simp

theorem high_res_fixed_points_witness:
  "resolved ''//img.alicdn.com/i1/O1CN01aaa1_!!2211714949103.jpg_.webp'' \<and>
   high_res ''//img.alicdn.com/i1/O1CN01aaa1_!!2211714949103.jpg_.webp''
     = ''//img.alicdn.com/i1/O1CN01aaa1_!!2211714949103.jpg_.webp'' \<and>
   high_res (high_res ''//img.alicdn.com/i1/O1CN01aaa1_!!2211714949103.jpg_q50.jpg_.webp'')
     = high_res ''//img.alicdn.com/i1/O1CN01aaa1_!!2211714949103.jpg_q50.jpg_.webp''"
proof -
  from high_res_fixed_points [of "''//img.alicdn.com/i1/O1CN01aaa1_!!2211714949103.jpg_.webp''"]
    single_suffix_resolved
  have n: "high_res ''//img.alicdn.com/i1/O1CN01aaa1_!!2211714949103.jpg_.webp''
     = ''//img.alicdn.com/i1/O1CN01aaa1_!!2211714949103.jpg_.webp''"
    by (elim conjE) (rule mp)
  then have "high_res (high_res ''//img.alicdn.com/i1/O1CN01aaa1_!!2211714949103.jpg_q50.jpg_.webp'')
     = high_res ''//img.alicdn.com/i1/O1CN01aaa1_!!2211714949103.jpg_q50.jpg_.webp''"
    unfolding single_suffix_once .
  with single_suffix_resolved n show ?thesis by (intro conjI)
qed

text \<open>
  Claim C4 as stated fails on a URL with two quality suffixes: each application strips
  one.
\<close>

theorem idempotence_counterexample:
  "high_res ''//img.alicdn.com/i1/O1CN01aaa1_!!2211714949103.jpg_q50.jpg_q50.jpg''
     = ''//img.alicdn.com/i1/O1CN01aaa1_!!2211714949103.jpg_q50.jpg'' \<and>
   high_res (high_res ''//img.alicdn.com/i1/O1CN01aaa1_!!2211714949103.jpg_q50.jpg_q50.jpg'')
     = ''//img.alicdn.com/i1/O1CN01aaa1_!!2211714949103.jpg'' \<and>
   high_res (high_res ''//img.alicdn.com/i1/O1CN01aaa1_!!2211714949103.jpg_q50.jpg_q50.jpg'')
     \<noteq> high_res ''//img.alicdn.com/i1/O1CN01aaa1_!!2211714949103.jpg_q50.jpg_q50.jpg''"
  by code_simp

subsection \<open>Product identifier and platform\<close>

lemma map_of_dict_set:
  "map_of (dict_set d k v) k' = (if k' = k then Some v else map_of d k')"
  by (induction d) auto

lemma map_of_qs_add:
  "map_of (qs_add d nv) k =
     (if k = fst nv
      then Some ((case map_of d k of None \<Rightarrow> [] | Some vs \<Rightarrow> vs) @ [snd nv])
      else map_of d k)"
  by (simp add: qs_add_def map_of_dict_set split: option.split)

lemma map_of_foldl_qs_add:
  "map_of (foldl qs_add d ps) k =
     (case map_of d k of
        None \<Rightarrow> (case filter (\<lambda>nv. fst nv = k) ps of [] \<Rightarrow> None | x # xs \<Rightarrow> Some (map snd (x # xs)))
      | Some ws \<Rightarrow> Some (ws @ map snd (filter (\<lambda>nv. fst nv = k) ps)))"
proof (induction ps arbitrary: d)
  case Nil
  show ?case by (simp split: option.split)
next
  case (Cons nv ps)
  show ?case
    by (simp add: Cons.IH map_of_qs_add split: option.split list.split)
qed

lemma find_as_filter:
  "find P ps = (case filter P ps of [] \<Rightarrow> None | x # xs \<Rightarrow> Some x)"
  by (induction ps) auto

lemma parse_qs_first_value:
  "map_of (parse_qs lib qs) k =
     (case filter (\<lambda>nv. fst nv = k) (parse_qsl lib qs) of
        [] \<Rightarrow> None
      | x # xs \<Rightarrow> Some (snd x # map snd xs))"
  by (simp add: parse_qs_def map_of_foldl_qs_add split: list.split)

lemma extract_product_id_first:
  "extract_product_id lib u =
     (case url_error lib u of
        Some message \<Rightarrow> Inl message
      | None \<Rightarrow>
          Inr (map_option snd (find (\<lambda>nv. fst nv = ''id'') (parse_qsl lib (url_query u)))))"
  by (simp add: extract_product_id_def parse_qs_first_value find_as_filter
      split: list.split option.split)

lemma extract_product_info_identity:
  assumes "extract_product_info lib pg u api_images = Inr p"
  shows "url p = u \<and> platform p = detect_platform u \<and>
         extract_product_id lib u = Inr (product_id p)"
  using assms
  by (auto simp: extract_product_info_def bind_res_def new_product_def split: sum.splits)

lemma split_on_plain: "sep \<notin> set x \<Longrightarrow> split_on sep x = [x]"
  by (induction x) auto

lemma split_on_append:
  "sep \<notin> set x \<Longrightarrow> split_on sep (x @ sep # r) = x # split_on sep r"
  by (induction x) (auto split: list.split)

lemma split_on_join:
  "fs \<noteq> [] \<Longrightarrow> \<forall>f \<in> set fs. sep \<notin> set f \<Longrightarrow> split_on sep (join_with [sep] fs) = fs"
proof (induction "[sep]" fs rule: join_with.induct)
  case 1
  then show ?case by simp
next
  case (2 x)
  then show ?case by (simp add: split_on_plain)
next
  case (3 x y ys)
  then show ?case by (simp add: split_on_append)
qed

lemma set_join_with: "set (join_with sep fs) \<subseteq> set sep \<union> \<Union> (set ` set fs)"
  by (induction sep fs rule: join_with.induct) auto

lemma join_with_empty:
  "join_with [sep] fs = [] \<Longrightarrow> fs = [] \<or> fs = [[]]"
  by (induction "[sep]" fs rule: join_with.induct) auto

lemma parse_qsl_join:
  assumes "\<forall>f \<in> set fs. CHR ''&'' \<notin> set f"
  shows "parse_qsl lib (join_with ''&'' fs) = List.map_filter (parse_field lib) fs"
proof (cases "join_with ''&'' fs = []")
  case True
  then have "fs = [] \<or> fs = [[]]" by (rule join_with_empty)
  with True show ?thesis
    by (auto simp: parse_qsl_def parse_field_def)
next
  case False
  then have "fs \<noteq> []" by auto
  from split_on_join [OF this assms] False show ?thesis
    by (simp add: parse_qsl_def)
qed

lemma url_query_parts:
  assumes "filter (\<lambda>c. c \<notin> set [CHR 0x09, CHR 0x0D, CHR 0x0A]) u = pre @ ''?'' @ q @ frag"
    and "CHR ''?'' \<notin> set pre" and "CHR ''#'' \<notin> set pre" and "CHR ''#'' \<notin> set q"
    and "frag = [] \<or> prefix ''#'' frag"
  shows "url_query u = q"
proof -
  have t: "takeWhile (\<lambda>c. c \<noteq> CHR ''#'') (pre @ ''?'' @ q @ frag) = pre @ ''?'' @ q"
  proof -
    have "takeWhile (\<lambda>c. c \<noteq> CHR ''#'') ((pre @ ''?'' @ q) @ frag)
        = (pre @ ''?'' @ q) @ takeWhile (\<lambda>c. c \<noteq> CHR ''#'') frag"
      using assms(3,4) by (intro takeWhile_append2) auto
    moreover have "takeWhile (\<lambda>c. c \<noteq> CHR ''#'') frag = []"
      using assms(5) by (auto simp: prefix_def)
    ultimately show ?thesis by simp
  qed
  have d: "dropWhile (\<lambda>c. c \<noteq> CHR ''?'') (pre @ ''?'' @ q) = ''?'' @ q"
    using assms(2) by (auto simp: dropWhile_append3)
  show ?thesis
    unfolding url_query_def Let_def assms(1) t d by simp
qed

lemma parse_field_id:
  "parse_field lib f =
     (if CHR ''='' \<in> set f \<and> drop 1 (dropWhile (\<lambda>c. c \<noteq> CHR ''='') f) \<noteq> []
      then Some (field_name lib f, field_value lib f) else None)"
  by (auto simp: parse_field_def field_name_def field_value_def Let_def)

lemma find_id_field:
  "map_option snd (find (\<lambda>nv. fst nv = ''id'') (List.map_filter (parse_field lib) fs))
     = map_option (field_value lib) (find (is_id_field lib) fs)"
proof (induction fs)
  case Nil
  show ?case by simp
next
  case (Cons f fs)
  then show ?case
    by (simp add: parse_field_id is_id_field_def)
qed

lemma product_id_of_fields:
  assumes "extract_product_id lib u = Inr pid"
    and "filter (\<lambda>c. c \<notin> set [CHR 0x09, CHR 0x0D, CHR 0x0A]) u
           = pre @ ''?'' @ join_with ''&'' fs @ frag"
    and "CHR ''?'' \<notin> set pre" and "CHR ''#'' \<notin> set pre"
    and "\<forall>f \<in> set fs. CHR ''&'' \<notin> set f \<and> CHR ''#'' \<notin> set f"
    and "frag = [] \<or> prefix ''#'' frag"
  shows "pid = map_option (field_value lib) (find (is_id_field lib) fs)"
proof -
  have "CHR ''#'' \<notin> set (join_with ''&'' fs)"
    using set_join_with [of "''&''" fs] assms(5) by auto
  with assms(2,3,4,6) have q: "url_query u = join_with ''&'' fs"
    by (intro url_query_parts)
  from assms(5) have "parse_qsl lib (join_with ''&'' fs) = List.map_filter (parse_field lib) fs"
    by (intro parse_qsl_join) simp
  with assms(1) q show ?thesis
    by (simp add: extract_product_id_first find_id_field split: option.splits)
qed

lemma product_id_without_query:
  assumes "extract_product_id lib u = Inr pid"
    and "CHR ''?'' \<notin> set (takeWhile (\<lambda>c. c \<noteq> CHR ''#'')
           (filter (\<lambda>c. c \<notin> set [CHR 0x09, CHR 0x0D, CHR 0x0A]) u))"
  shows "pid = None"
proof -
  let ?b = "takeWhile (\<lambda>c. c \<noteq> CHR ''#'')
           (filter (\<lambda>c. c \<notin> set [CHR 0x09, CHR 0x0D, CHR 0x0A]) u)"
  from assms(2) have d: "dropWhile (\<lambda>c. c \<noteq> CHR ''?'') ?b = []"
    by (auto simp: dropWhile_eq_Nil_conv)
  have "url_query u = drop 1 (dropWhile (\<lambda>c. c \<noteq> CHR ''?'') ?b)"
    unfolding url_query_def Let_def ..
  then have "url_query u = []" unfolding d by simp
  with assms(1) show ?thesis
    by (simp add: extract_product_id_first parse_qsl_def split: option.splits)
qed

text \<open>
  Claim C10, as amended. Whenever extraction yields a \<open>ProductInfo\<close> for a URL, its
  platform is \<open>tmall\<close> if the URL contains \<open>tmall.com\<close> and \<open>taobao\<close> otherwise. Its
  product identifier is read from the URL's text: when the URL (tabs, carriage returns
  and newlines removed) is \<open>pre ? f1 & ... & fn\<close> followed by nothing or by a fragment
  that starts with \<open>#\<close>, it is the decoded value of the first field \<open>name=value\<close> whose
  decoded name is \<open>id\<close> and whose value is not empty, and \<open>None\<close> when there is no such
  field; it is \<open>None\<close> when the URL has no \<open>?\<close> before its fragment. Platform and
  identifier are the same for every page and every list of captured images.
\<close>

theorem product_identity_from_url:
  assumes "extract_product_info lib pg u api_images = Inr p"
  shows "platform p = (if py_in ''tmall.com'' u then ''tmall'' else ''taobao'') \<and>
         (platform p = ''tmall'') = py_in ''tmall.com'' u \<and>
         (\<forall>pre fs frag.
            filter (\<lambda>c. c \<notin> set [CHR 0x09, CHR 0x0D, CHR 0x0A]) u
              = pre @ ''?'' @ join_with ''&'' fs @ frag \<and>
            CHR ''?'' \<notin> set pre \<and> CHR ''#'' \<notin> set pre \<and>
            (\<forall>f \<in> set fs. CHR ''&'' \<notin> set f \<and> CHR ''#'' \<notin> set f) \<and>
            (frag = [] \<or> prefix ''#'' frag) \<longrightarrow>
            product_id p = map_option (field_value lib) (find (is_id_field lib) fs)) \<and>
         (CHR ''?'' \<notin> set (takeWhile (\<lambda>c. c \<noteq> CHR ''#'')
            (filter (\<lambda>c. c \<notin> set [CHR 0x09, CHR 0x0D, CHR 0x0A]) u)) \<longrightarrow>
            product_id p = None) \<and>
         (\<forall>pg' api_images' p'. extract_product_info lib pg' u api_images' = Inr p' \<longrightarrow>
            platform p' = platform p \<and> product_id p' = product_id p)"
proof -
  from extract_product_info_identity [OF assms]
  have pl: "platform p = detect_platform u" and id: "extract_product_id lib u = Inr (product_id p)"
    by simp_all
  have A: "platform p = (if py_in ''tmall.com'' u then ''tmall'' else ''taobao'')"
    by (simp add: pl detect_platform_def)
  have B: "(platform p = ''tmall'') = py_in ''tmall.com'' u"
    by (simp add: pl detect_platform_def)
  have C: "\<forall>pre fs frag.
            filter (\<lambda>c. c \<notin> set [CHR 0x09, CHR 0x0D, CHR 0x0A]) u
              = pre @ ''?'' @ join_with ''&'' fs @ frag \<and>
            CHR ''?'' \<notin> set pre \<and> CHR ''#'' \<notin> set pre \<and>
            (\<forall>f \<in> set fs. CHR ''&'' \<notin> set f \<and> CHR ''#'' \<notin> set f) \<and>
            (frag = [] \<or> prefix ''#'' frag) \<longrightarrow>
            product_id p = map_option (field_value lib) (find (is_id_field lib) fs)"
  proof (intro allI impI, elim conjE)
    fix pre fs frag
    assume "filter (\<lambda>c. c \<notin> set [CHR 0x09, CHR 0x0D, CHR 0x0A]) u
              = pre @ ''?'' @ join_with ''&'' fs @ frag"
      and "CHR ''?'' \<notin> set pre" and "CHR ''#'' \<notin> set pre"
      and "\<forall>f \<in> set fs. CHR ''&'' \<notin> set f \<and> CHR ''#'' \<notin> set f"
      and "frag = [] \<or> prefix ''#'' frag"
    with id show "product_id p = map_option (field_value lib) (find (is_id_field lib) fs)"
      by (rule product_id_of_fields)
  qed
  have D: "CHR ''?'' \<notin> set (takeWhile (\<lambda>c. c \<noteq> CHR ''#'')
            (filter (\<lambda>c. c \<notin> set [CHR 0x09, CHR 0x0D, CHR 0x0A]) u)) \<longrightarrow>
            product_id p = None"
    using product_id_without_query [OF id] by blast
  have E: "\<forall>pg' api_images' p'. extract_product_info lib pg' u api_images' = Inr p' \<longrightarrow>
      platform p' = platform p \<and> product_id p' = product_id p"
  proof (intro allI impI)
    fix pg' api_images' p'
    assume "extract_product_info lib pg' u api_images' = Inr p'"
    from extract_product_info_identity [OF this] pl id
    show "platform p' = platform p \<and> product_id p' = product_id p" by simp
  qed
  show ?thesis
    by (rule conjI [OF A conjI [OF B conjI [OF C conjI [OF D E]]]])
qed

lemma tmall_blank_extraction:
  "extract_product_info plain_urllib blank_page
       ''https://detail.tmall.com/item.htm?spm=a1&id=&id=123456&id=9#x'' [] =
     Inr ((new_product ''https://detail.tmall.com/item.htm?spm=a1&id=&id=123456&id=9#x''
             ''tmall'' (Some ''123456''))
          \<lparr>title := [], price := None, original_price := None, shop_name := None,
           shipping := None, freight := None, sales := None, rating := None,
           description := None, highlights := [], services := [], promotions := [],
           main_images := []\<rparr>)"
  by code_simp

lemma tmall_url_parts:
  "filter (\<lambda>c. c \<notin> set [CHR 0x09, CHR 0x0D, CHR 0x0A])
       ''https://detail.tmall.com/item.htm?spm=a1&id=&id=123456&id=9#x''
     = ''https://detail.tmall.com/item.htm'' @ ''?'' @
       join_with ''&'' [''spm=a1'', ''id='', ''id=123456'', ''id=9''] @ ''#x''"
  by code_simp

lemma tmall_url_shape:
  "CHR ''?'' \<notin> set ''https://detail.tmall.com/item.htm'' \<and>
   CHR ''#'' \<notin> set ''https://detail.tmall.com/item.htm'' \<and>
   list_all (\<lambda>f. CHR ''&'' \<notin> set f \<and> CHR ''#'' \<notin> set f)
     [''spm=a1'', ''id='', ''id=123456'', ''id=9''] \<and>
   prefix ''#'' ''#x''"
  by code_simp

lemma tmall_first_id:
  "map_option (field_value plain_urllib)
     (find (is_id_field plain_urllib) [''spm=a1'', ''id='', ''id=123456'', ''id=9''])
     = Some ''123456''"
  by code_simp

theorem product_identity_from_url_witness:
  "filter (\<lambda>c. c \<notin> set [CHR 0x09, CHR 0x0D, CHR 0x0A])
       ''https://detail.tmall.com/item.htm?spm=a1&id=&id=123456&id=9#x''
     = ''https://detail.tmall.com/item.htm'' @ ''?'' @
       join_with ''&'' [''spm=a1'', ''id='', ''id=123456'', ''id=9''] @ ''#x'' \<and>
   py_in ''tmall.com'' ''https://detail.tmall.com/item.htm?spm=a1&id=&id=123456&id=9#x'' \<and>
   product_id ((new_product ''https://detail.tmall.com/item.htm?spm=a1&id=&id=123456&id=9#x''
             ''tmall'' (Some ''123456''))
          \<lparr>title := [], price := None, original_price := None, shop_name := None,
           shipping := None, freight := None, sales := None, rating := None,
           description := None, highlights := [], services := [], promotions := [],
           main_images := []\<rparr>)
     = map_option (field_value plain_urllib)
         (find (is_id_field plain_urllib) [''spm=a1'', ''id='', ''id=123456'', ''id=9'']) \<and>
   map_option (field_value plain_urllib)
     (find (is_id_field plain_urllib) [''spm=a1'', ''id='', ''id=123456'', ''id=9''])
     = Some ''123456''"
proof -
  note t = product_identity_from_url [OF tmall_blank_extraction]
  have shape: "CHR ''?'' \<notin> set ''https://detail.tmall.com/item.htm'' \<and>
      CHR ''#'' \<notin> set ''https://detail.tmall.com/item.htm'' \<and>
      (\<forall>f \<in> set [''spm=a1'', ''id='', ''id=123456'', ''id=9''].
         CHR ''&'' \<notin> set f \<and> CHR ''#'' \<notin> set f) \<and>
      (''#x'' = [] \<or> prefix ''#'' ''#x'')"
    using tmall_url_shape unfolding list_all_iff by blast
  from t have "\<forall>pre fs frag.
      filter (\<lambda>c. c \<notin> set [CHR 0x09, CHR 0x0D, CHR 0x0A])
          ''https://detail.tmall.com/item.htm?spm=a1&id=&id=123456&id=9#x''
        = pre @ ''?'' @ join_with ''&'' fs @ frag \<and>
      CHR ''?'' \<notin> set pre \<and> CHR ''#'' \<notin> set pre \<and>
      (\<forall>f \<in> set fs. CHR ''&'' \<notin> set f \<and> CHR ''#'' \<notin> set f) \<and>
      (frag = [] \<or> prefix ''#'' frag) \<longrightarrow>
      product_id ((new_product ''https://detail.tmall.com/item.htm?spm=a1&id=&id=123456&id=9#x''
             ''tmall'' (Some ''123456''))
          \<lparr>title := [], price := None, original_price := None, shop_name := None,
           shipping := None, freight := None, sales := None, rating := None,
           description := None, highlights := [], services := [], promotions := [],
           main_images := []\<rparr>)
        = map_option (field_value plain_urllib) (find (is_id_field plain_urllib) fs)"
    by (elim conjE)
  from this [rule_format, OF conjI [OF tmall_url_parts shape]]
  have pid: "product_id ((new_product ''https://detail.tmall.com/item.htm?spm=a1&id=&id=123456&id=9#x''
             ''tmall'' (Some ''123456''))
          \<lparr>title := [], price := None, original_price := None, shop_name := None,
           shipping := None, freight := None, sales := None, rating := None,
           description := None, highlights := [], services := [], promotions := [],
           main_images := []\<rparr>)
     = map_option (field_value plain_urllib)
         (find (is_id_field plain_urllib) [''spm=a1'', ''id='', ''id=123456'', ''id=9''])" .
  have tm: "py_in ''tmall.com'' ''https://detail.tmall.com/item.htm?spm=a1&id=&id=123456&id=9#x''"
    by code_simp
  show ?thesis
    by (intro conjI tmall_url_parts tm pid tmall_first_id)
qed

text \<open>
  Claim C10 as stated fails where a value is blank: with \<open>?id=&id=7\<close> the first value of
  the \<open>id\<close> parameter is empty and the identifier is \<open>7\<close>; with \<open>?id=\<close> the parameter is
  present and the identifier is \<open>None\<close>.
\<close>

theorem blank_id_counterexample:
  "extract_product_id plain_urllib ''https://item.taobao.com/item.htm?id=&id=7''
     = Inr (Some ''7'') \<and>
   extract_product_id plain_urllib ''https://item.taobao.com/item.htm?id='' = Inr None \<and>
   product_id (projr (extract_product_info plain_urllib blank_page
      ''https://item.taobao.com/item.htm?id=&id=7'' [])) = Some ''7'' \<and>
   product_id (projr (extract_product_info plain_urllib blank_page
      ''https://item.taobao.com/item.htm?id='' [])) = None"
  by code_simp

subsection \<open>The scrape envelope\<close>






lemma signalled_iff: "signalled m = (\<exists>s. m = Inl (Signal s))"
  by (auto simp: signalled_def split: sum.splits raised.splits)


lemma quiet_bind:
  "\<not> signalled m \<Longrightarrow> (\<And>x. \<not> signalled (f x)) \<Longrightarrow> \<not> signalled (bind_res m f)"
  by (cases m) (simp_all add: bind_res_def signalled_def)














end
